theory Spec2Isabelle
  imports Complex_Main
begin

section \<open>Tensors\<close>

text \<open>
  The program (\<^verbatim>\<open>standalone/ochem.py\<close>) computes with numpy arrays of
  floating-point numbers. A one-dimensional array is a list, a two-dimensional array the
  list of its rows, a three-dimensional array the list of its matrices. The entries are
  the real numbers the floats denote. Two relevance rules are modelled with the rounding
  of their arithmetic written out (section \<open>Floating-point rounding\<close>): the additive
  merge, which works in \<^verbatim>\<open>float64\<close>, and the de-pooling, which stores into a
  \<^verbatim>\<open>float32\<close> array. Everywhere else the arithmetic is exact and a cast is the
  identity. numpy never raises on a division by zero or on an overflow: it stores
  \<^verbatim>\<open>nan\<close> or \<^verbatim>\<open>inf\<close> entries and goes on. A real number is neither, so a
  function of the model that would produce one returns \<open>Inl NonFinite\<close> instead of an
  array.
\<close>

type_synonym vec = "real list"

type_synonym mat = "real list list"

type_synonym ten = "real list list list"

datatype error =
    KeyError char
  | IndexError
  | EvalError
  | NonFinite

definition np_sum :: "vec \<Rightarrow> real" where
  "np_sum xs = sum_list xs"

definition np_sum2 :: "mat \<Rightarrow> real" where
  "np_sum2 m = sum_list (map sum_list m)"

definition zeros :: "nat \<Rightarrow> vec" where
  "zeros n = replicate n 0"

definition zeros2 :: "nat \<Rightarrow> nat \<Rightarrow> mat" where
  "zeros2 r c = replicate r (zeros c)"

text \<open>Elementwise operations on arrays of one shape.\<close>

definition vadd :: "vec \<Rightarrow> vec \<Rightarrow> vec" where
  "vadd xs ys = map2 (+) xs ys"

definition vsub :: "vec \<Rightarrow> vec \<Rightarrow> vec" where
  "vsub xs ys = map2 (-) xs ys"

definition vmul :: "vec \<Rightarrow> vec \<Rightarrow> vec" where
  "vmul xs ys = map2 (*) xs ys"

definition vdiv :: "vec \<Rightarrow> vec \<Rightarrow> vec" where
  "vdiv xs ys = map2 (/) xs ys"

definition madd :: "mat \<Rightarrow> mat \<Rightarrow> mat" where
  "madd a b = map2 vadd a b"

text \<open>\<^verbatim>\<open>np.dot\<close> of two vectors.\<close>

definition dotv :: "vec \<Rightarrow> vec \<Rightarrow> real" where
  "dotv xs ys = sum_list (vmul xs ys)"

text \<open>\<^verbatim>\<open>np.sum(m, axis=0)\<close> of a matrix with \<open>c\<close> columns: the sum of its rows.\<close>

definition col_sums :: "nat \<Rightarrow> mat \<Rightarrow> vec" where
  "col_sums c m = foldr vadd m (zeros c)"

text \<open>
  \<^verbatim>\<open>reshape((-1, c))\<close> of flat data: rows of \<open>c\<close> entries each, in order.
\<close>

function reshape_rows :: "nat \<Rightarrow> 'a list \<Rightarrow> 'a list list" where
  "reshape_rows c xs =
     (if c = 0 \<or> xs = [] then [] else take c xs # reshape_rows c (drop c xs))"
  by pat_completeness auto

termination
  by (relation "measure (\<lambda>(c, xs). length xs)") auto

declare reshape_rows.simps [simp del]

section \<open>Floating-point rounding\<close>

text \<open>
  A finite float is the real number it denotes. \<open>round_to p emin x\<close> is the number
  with a significand of \<open>p\<close> bits and an exponent not below \<open>emin\<close> that is nearest to
  \<open>x\<close>, a tie going to the even significand: the rounding of IEEE 754, subnormal numbers
  included. The sign of a zero is left out.

  \<open>pow2 e\<close> is the power of two with an integer exponent, \<open>round_half_even\<close> the nearest
  integer with ties to even. \<open>float_exp n a\<close> is the exponent \<open>e\<close> with
  \<open>2 ^ e \<le> a < 2 ^ (e + 1)\<close>, found by halving or doubling \<open>a\<close> in at most \<open>n\<close> steps;
  2100 steps reach every positive number between the smallest subnormal and the largest
  finite number of both formats. \<open>quantum\<close> is the distance of neighbouring floats at
  \<open>x\<close>.
\<close>

definition pow2 :: "int \<Rightarrow> real" where
  "pow2 e = (if 0 \<le> e then 2 ^ nat e else 1 / 2 ^ nat (- e))"

definition round_half_even :: "real \<Rightarrow> int" where
  "round_half_even t =
     (let n = \<lfloor>t\<rfloor>; r = t - of_int n
      in if r < 1 / 2 then n else if 1 / 2 < r then n + 1 else if even n then n else n + 1)"

fun float_exp :: "nat \<Rightarrow> real \<Rightarrow> int" where
  "float_exp 0 a = 0"
| "float_exp (Suc n) a =
     (if 2 \<le> a then float_exp n (a / 2) + 1
      else if a < 1 then float_exp n (2 * a) - 1
      else 0)"

definition quantum :: "nat \<Rightarrow> int \<Rightarrow> real \<Rightarrow> real" where
  "quantum p emin x =
     (if \<bar>x\<bar> < pow2 emin then pow2 (emin - int p + 1)
      else pow2 (float_exp 2100 \<bar>x\<bar> - int p + 1))"

definition round_to :: "nat \<Rightarrow> int \<Rightarrow> real \<Rightarrow> real" where
  "round_to p emin x = (let q = quantum p emin x in of_int (round_half_even (x / q)) * q)"

text \<open>
  The result of an operation whose exact value is \<open>x\<close>, in the format with \<open>p\<close> bits and
  exponents from \<open>emin\<close> to \<open>emax\<close>. Where the rounded value is beyond the largest
  finite number numpy stores an infinity: \<open>Inl NonFinite\<close>. \<^verbatim>\<open>float64\<close> has 53 bits
  and exponents from -1022 to 1023, \<^verbatim>\<open>float32\<close> 24 bits and exponents from -126 to
  127.
\<close>

definition np_float :: "nat \<Rightarrow> int \<Rightarrow> int \<Rightarrow> real \<Rightarrow> error + real" where
  "np_float p emin emax x =
     (if pow2 (emax + 1) \<le> \<bar>x\<bar> \<or> pow2 (emax + 1) \<le> \<bar>round_to p emin x\<bar> then Inl NonFinite
      else Inr (round_to p emin x))"

definition float64 :: "real \<Rightarrow> error + real" where
  "float64 x = np_float 53 (- 1022) 1023 x"

definition float32 :: "real \<Rightarrow> error + real" where
  "float32 x = np_float 24 (- 126) 127 x"

text \<open>
  Elementwise \<^verbatim>\<open>/\<close>, \<^verbatim>\<open>*\<close> and \<^verbatim>\<open>-\<close> of two \<^verbatim>\<open>float64\<close> arrays of one shape,
  every entry rounded. A division by zero gives \<^verbatim>\<open>inf\<close> or \<^verbatim>\<open>nan\<close>.
\<close>

fun np_map2 :: "(real \<Rightarrow> real \<Rightarrow> error + real) \<Rightarrow> vec \<Rightarrow> vec \<Rightarrow> error + vec" where
  "np_map2 f (x # xs) (y # ys) =
     (case f x y of
        Inl e \<Rightarrow> Inl e
      | Inr v \<Rightarrow> (case np_map2 f xs ys of Inl e \<Rightarrow> Inl e | Inr vs \<Rightarrow> Inr (v # vs)))"
| "np_map2 f xs ys = Inr []"

definition np_divide :: "vec \<Rightarrow> vec \<Rightarrow> error + vec" where
  "np_divide xs ys = np_map2 (\<lambda>x y. if y = 0 then Inl NonFinite else float64 (x / y)) xs ys"

definition np_multiply :: "vec \<Rightarrow> vec \<Rightarrow> error + vec" where
  "np_multiply xs ys = np_map2 (\<lambda>x y. float64 (x * y)) xs ys"

definition np_subtract :: "vec \<Rightarrow> vec \<Rightarrow> error + vec" where
  "np_subtract xs ys = np_map2 (\<lambda>x y. float64 (x - y)) xs ys"

section \<open>The relevance rules\<close>

subsection \<open>Dense layers\<close>

text \<open>
  \<^verbatim>\<open>calcLRPDenseOut(l_previous, w, l_next)\<close>: \<^verbatim>\<open>w[0]\<close> has one column (the
  output layer), so its transpose is the row \<open>map hd (fst w)\<close>;
  \<^verbatim>\<open>np.sum(zij, axis=1) + w[1]\<close> is one number, the denominator of every entry.
\<close>

definition calcLRPDenseOut :: "vec \<Rightarrow> mat \<times> vec \<Rightarrow> vec \<Rightarrow> error + vec" where
  "calcLRPDenseOut l_previous w l_next =
     (let zij = vmul (map hd (fst w)) l_previous;
          den = np_sum zij + hd (snd w)
      in if den = 0 then Inl NonFinite
         else Inr (map (\<lambda>z. hd l_next * (z / den)) zij))"

text \<open>
  \<^verbatim>\<open>calcLRPDenseInner(l_previous, w, l_next)\<close>: \<^verbatim>\<open>zij[i][j] = l_previous[i] * w[0][i][j]\<close>,
  \<^verbatim>\<open>z[j] = sum_i zij[i][j] + w[1][j] + 1e-32\<close>, and the result at \<open>i\<close> is
  \<^verbatim>\<open>sum_j l_next[j] * zij[i][j] / z[j]\<close>.
\<close>

definition calcLRPDenseInner :: "vec \<Rightarrow> mat \<times> vec \<Rightarrow> vec \<Rightarrow> error + vec" where
  "calcLRPDenseInner l_previous w l_next =
     (let zij = map2 (\<lambda>x wrow. map (\<lambda>wv. x * wv) wrow) l_previous (fst w);
          z = map (\<lambda>v. v + 1 / 10 ^ 32) (vadd (col_sums (length l_next) zij) (snd w))
      in if 0 \<in> set z then Inl NonFinite
         else Inr (map (\<lambda>row. dotv l_next (vdiv row z)) zij))"

subsection \<open>Additive merge\<close>

text \<open>
  \<^verbatim>\<open>calcLRPAddition(l_first, l_second, l_sum, R)\<close> on \<^verbatim>\<open>float64\<close> arrays: the
  division, the product and the difference are rounded at every entry. The constant
  \<^verbatim>\<open>1.0e32\<close> is the double nearest to \<open>10 ^ 32\<close>. The source does not read
  \<^verbatim>\<open>l_second\<close>.
\<close>

definition calcLRPAddition :: "vec \<Rightarrow> vec \<Rightarrow> vec \<Rightarrow> vec \<Rightarrow> error + vec \<times> vec" where
  "calcLRPAddition l_first l_second l_sum R =
     (let result = map (\<lambda>s. if s = 0 then round_to 53 (- 1022) (10 ^ 32) else s) l_sum
      in case np_divide l_first result of
           Inl e \<Rightarrow> Inl e
         | Inr f \<Rightarrow>
             (case np_multiply R f of
                Inl e \<Rightarrow> Inl e
              | Inr r_first \<Rightarrow>
                  (case np_subtract R r_first of
                     Inl e \<Rightarrow> Inl e
                   | Inr r_second \<Rightarrow> Inr (r_first, r_second))))"

subsection \<open>Max-pool\<close>

text \<open>
  \<^verbatim>\<open>calcLRPPool(l_embed, inds, R)\<close>: \<^verbatim>\<open>demax[inds[i], i] = R[i]\<close> for every channel
  \<open>i\<close>, on a zero matrix with the rows of \<^verbatim>\<open>l_embed\<close> and one column per channel.
  The matrix is made with \<^verbatim>\<open>dtype=np.float32\<close> and \<^verbatim>\<open>R\<close> is a \<^verbatim>\<open>float64\<close> array
  (\<^verbatim>\<open>calcLRPDenseInner\<close> computes in \<^verbatim>\<open>float64\<close>), so the assignment rounds
  \<^verbatim>\<open>R[i]\<close> to single precision. The indices are those of \<^verbatim>\<open>np.argmax\<close>, so not
  negative; an index beyond the rows, or a channel beyond \<^verbatim>\<open>R\<close>, raises
  \<^verbatim>\<open>IndexError\<close>.
\<close>

fun pool_loop :: "nat list \<Rightarrow> vec \<Rightarrow> nat list \<Rightarrow> mat \<Rightarrow> error + mat" where
  "pool_loop inds R [] demax = Inr demax"
| "pool_loop inds R (i # is) demax =
     (if inds ! i < length demax \<and> i < length R
      then (case float32 (R ! i) of
              Inl e \<Rightarrow> Inl e
            | Inr v \<Rightarrow> pool_loop inds R is (demax[inds ! i := (demax ! (inds ! i))[i := v]]))
      else Inl IndexError)"

definition calcLRPPool :: "mat \<Rightarrow> nat list \<Rightarrow> vec \<Rightarrow> error + mat" where
  "calcLRPPool l_embed inds R =
     pool_loop inds R [0..<length inds] (zeros2 (length l_embed) (length inds))"

subsection \<open>Convolutions\<close>

text \<open>\<^verbatim>\<open>calcLRPConv(l_prev, w, l_out)\<close>: the inner dense rule at every row.\<close>

fun conv_loop :: "mat \<times> vec \<Rightarrow> mat \<Rightarrow> mat \<Rightarrow> error + mat" where
  "conv_loop w [] l_out = Inr []"
| "conv_loop w (x # l_prev) l_out =
     (case l_out of
        [] \<Rightarrow> Inl IndexError
      | y # l_out' \<Rightarrow>
          (case calcLRPDenseInner x w y of
             Inl e \<Rightarrow> Inl e
           | Inr r \<Rightarrow>
               (case conv_loop w l_prev l_out' of
                  Inl e \<Rightarrow> Inl e
                | Inr rs \<Rightarrow> Inr (r # rs))))"

definition calcLRPConv :: "mat \<Rightarrow> mat \<times> vec \<Rightarrow> mat \<Rightarrow> error + mat" where
  "calcLRPConv l_prev w l_out = conv_loop w l_prev l_out"

text \<open>
  \<^verbatim>\<open>calcLRPConvStride(l_prev, w, l_out, stride)\<close>. The loop runs over
  \<^verbatim>\<open>range(l_prev.shape[0] - stride - 1)\<close>, which is empty when the bound is not
  positive, as the truncating subtraction of \<open>nat\<close> has it. \<open>add_rows_at\<close> is
  \<^verbatim>\<open>y[i:i + stride] = y[i:i + stride] + z\<close>; the source's \<^verbatim>\<open>x_\<close>, \<^verbatim>\<open>y_\<close>
  and \<^verbatim>\<open>w_\<close> are \<open>x'\<close>, \<open>y'\<close> and \<open>w'\<close>.
\<close>

definition add_rows_at :: "nat \<Rightarrow> nat \<Rightarrow> mat \<Rightarrow> mat \<Rightarrow> mat" where
  "add_rows_at i stride z y =
     take i y @ madd (take stride (drop i y)) z @ drop (i + stride) y"

fun stride_loop :: "mat \<Rightarrow> mat \<times> vec \<Rightarrow> mat \<Rightarrow> nat \<Rightarrow> nat list \<Rightarrow> mat \<Rightarrow> error + mat" where
  "stride_loop l_prev w l_out stride [] y = Inr y"
| "stride_loop l_prev w l_out stride (i # is) y =
     (if length l_out \<le> i then Inl IndexError
      else
        (let x' = concat (take stride (drop i l_prev));
             y' = l_out ! i
         in case calcLRPDenseInner x' w y' of
              Inl e \<Rightarrow> Inl e
            | Inr z \<Rightarrow>
                stride_loop l_prev w l_out stride is
                  (add_rows_at i stride (reshape_rows (length z div stride) z) y)))"

definition stride_acc :: "mat \<Rightarrow> ten \<times> vec \<Rightarrow> mat \<Rightarrow> nat \<Rightarrow> error + mat" where
  "stride_acc l_prev w l_out stride =
     (let y = map (\<lambda>row. zeros (length row)) l_prev;
          w' = reshape_rows (length (hd l_out)) (concat (concat (fst w)))
      in stride_loop l_prev (w', snd w) l_out stride [0..<length l_prev - stride - 1] y)"

definition calcLRPConvStride :: "mat \<Rightarrow> ten \<times> vec \<Rightarrow> mat \<Rightarrow> nat \<Rightarrow> error + mat" where
  "calcLRPConvStride l_prev w l_out stride =
     (case stride_acc l_prev w l_out stride of
        Inl e \<Rightarrow> Inl e
      | Inr y \<Rightarrow>
          (let s = np_sum2 y
           in if s = 0 then Inl NonFinite
              else Inr (map (map (\<lambda>v. v / s * np_sum2 l_out)) y)))"

section \<open>Vocabulary and input\<close>

definition EMBEDDING_SIZE :: nat where
  "EMBEDDING_SIZE = 64"

definition CONV_OFFSET :: nat where
  "CONV_OFFSET = 20"

text \<open>The vocabulary of 66 characters; the one at index 45 is the backslash.\<close>

definition chars :: string where
  "chars = '' ^#%()+-./0123456789=@ABCDEFGHIKLMNOPRSTVXYZ['' @ [CHR 0x5C] @
           '']abcdefgilmnoprstuy$''"

text \<open>
  \<^verbatim>\<open>char_to_ix = {ch: i for i, ch in enumerate(chars)}\<close>: a later entry of a
  dictionary comprehension replaces an earlier one with the same key.
\<close>

definition char_to_ix :: "char \<rightharpoonup> nat" where
  "char_to_ix = foldl (\<lambda>m (i, ch). m(ch \<mapsto> i)) Map.empty (enumerate 0 chars)"

text \<open>
  The loop \<^verbatim>\<open>for i in range(N): x[i] = char_to_ix[mol[i]]\<close> raises
  \<^verbatim>\<open>KeyError\<close> at the first character that is not a key.
\<close>

fun encode :: "string \<Rightarrow> error + nat list" where
  "encode [] = Inr []"
| "encode (c # cs) =
     (case char_to_ix c of
        None \<Rightarrow> Inl (KeyError c)
      | Some k \<Rightarrow> (case encode cs of Inl e \<Rightarrow> Inl e | Inr ks \<Rightarrow> Inr (k # ks)))"

text \<open>\<^verbatim>\<open>x = np.zeros(NN, np.int32)\<close> with its first \<open>N\<close> entries set.\<close>

definition padded :: "nat list \<Rightarrow> nat list" where
  "padded ks = ks @ replicate CONV_OFFSET 0"

text \<open>The positional encoding matrix: zero rows from \<open>N\<close> on.\<close>

definition pos_entry :: "nat \<Rightarrow> nat \<Rightarrow> real" where
  "pos_entry j i =
     (if i mod 2 = 0
      then sin ((real j + 1) / (10000 powr (real i / real EMBEDDING_SIZE)))
      else cos ((real j + 1) / (10000 powr ((real i - 1) / real EMBEDDING_SIZE))))"

definition pos_matrix :: "nat \<Rightarrow> nat \<Rightarrow> mat" where
  "pos_matrix N NN =
     map (\<lambda>j. if j < N then map (pos_entry j) [0..<EMBEDDING_SIZE] else zeros EMBEDDING_SIZE)
       [0..<NN]"

text \<open>\<^verbatim>\<open>left_mask[:, :N] = 1\<close> on a zero matrix of \<open>NN\<close> rows and columns.\<close>

definition left_mask :: "nat \<Rightarrow> nat \<Rightarrow> mat" where
  "left_mask N NN = replicate NN (replicate N 1 @ replicate (NN - N) 0)"

text \<open>
  \<^verbatim>\<open>smiles_embed[i] = embed[x[i]] + pos[i]\<close> for every row; a token beyond the rows
  of \<^verbatim>\<open>embed\<close> (here \<open>embed'\<close>) raises \<^verbatim>\<open>IndexError\<close>.
\<close>

definition smiles_embed :: "mat \<Rightarrow> nat list \<Rightarrow> mat \<Rightarrow> error + mat" where
  "smiles_embed embed' x pos =
     (if list_all (\<lambda>k. k < length embed') x
      then Inr (map2 (\<lambda>k p. vadd (embed' ! k) p) x pos)
      else Inl IndexError)"

section \<open>The weight store\<close>

text \<open>
  The pickled model is a pair of a metadata list \<^verbatim>\<open>info\<close> (name, task type,
  output expression, unit) and a list \<^verbatim>\<open>d\<close> of arrays, read by position. The model
  reads an array at the rank the architecture gives it; the program does not check the
  shapes, and on arrays of other shapes numpy raises or broadcasts, which the model does
  not follow.
\<close>

datatype tensor = T1 vec | T2 mat | T3 ten

fun vec_of :: "tensor \<Rightarrow> vec" where
  "vec_of (T1 v) = v"
| "vec_of _ = []"

fun mat_of :: "tensor \<Rightarrow> mat" where
  "mat_of (T2 m) = m"
| "mat_of _ = []"

fun ten_of :: "tensor \<Rightarrow> ten" where
  "ten_of (T3 t) = t"
| "ten_of _ = []"

type_synonym store = "tensor list"

section \<open>The forward pass\<close>

definition err_bind :: "error + 'a \<Rightarrow> ('a \<Rightarrow> error + 'b) \<Rightarrow> error + 'b" where
  "err_bind r f = (case r of Inl e \<Rightarrow> Inl e | Inr v \<Rightarrow> f v)"

fun collect :: "(error + 'a) list \<Rightarrow> error + 'a list" where
  "collect [] = Inr []"
| "collect (r # rs) =
     (case r of
        Inl e \<Rightarrow> Inl e
      | Inr v \<Rightarrow> (case collect rs of Inl e \<Rightarrow> Inl e | Inr vs \<Rightarrow> Inr (v # vs)))"

definition ncols :: "mat \<Rightarrow> nat" where
  "ncols m = (case m of [] \<Rightarrow> 0 | r # _ \<Rightarrow> length r)"

text \<open>\<^verbatim>\<open>np.dot\<close> of a vector and a matrix, and of two matrices.\<close>

definition vecmat :: "vec \<Rightarrow> mat \<Rightarrow> vec" where
  "vecmat x w = col_sums (ncols w) (map2 (\<lambda>xi wrow. map (\<lambda>wv. xi * wv) wrow) x w)"

definition matmul :: "mat \<Rightarrow> mat \<Rightarrow> mat" where
  "matmul a b = map (\<lambda>row. vecmat row b) a"

text \<open>\<^verbatim>\<open>np.dot(x, w) + b\<close> on every row, and \<^verbatim>\<open>l[l < 0] = 0\<close>.\<close>

definition dense :: "mat \<Rightarrow> mat \<Rightarrow> vec \<Rightarrow> mat" where
  "dense x w b = map (\<lambda>row. vadd (vecmat row w) b) x"

definition relu :: "vec \<Rightarrow> vec" where
  "relu xs = map (\<lambda>v. if v < 0 then 0 else v) xs"

text \<open>
  Layer normalisation of every row:
  \<^verbatim>\<open>gamma * (l - mean) / (std + 1e-6) + beta\<close> with \<^verbatim>\<open>np.mean\<close> and
  \<^verbatim>\<open>np.std\<close> over the last axis.
\<close>

definition np_mean :: "vec \<Rightarrow> real" where
  "np_mean xs = sum_list xs / real (length xs)"

definition np_std :: "vec \<Rightarrow> real" where
  "np_std xs = sqrt (np_mean (map (\<lambda>v. (v - np_mean xs)\<^sup>2) xs))"

definition norm_row :: "vec \<Rightarrow> vec \<Rightarrow> vec \<Rightarrow> vec" where
  "norm_row gamma beta row =
     vadd (map (\<lambda>v. v / (np_std row + 1 / 10 ^ 6))
             (vmul gamma (map (\<lambda>v. v - np_mean row) row)))
          beta"

definition layer_norm :: "vec \<Rightarrow> vec \<Rightarrow> mat \<Rightarrow> mat" where
  "layer_norm gamma beta l = map (norm_row gamma beta) l"

text \<open>
  \<^verbatim>\<open>np.exp\<close> leaves the finite range on both sides. Where the exponential is
  \<open>2 ^ 1024\<close> or more the result is \<^verbatim>\<open>inf\<close>, which the mask, multiplied after the
  exponential (line 183), turns into \<^verbatim>\<open>nan\<close> at a padding column and leaves at a
  valid one: \<open>Inl NonFinite\<close>. Where the exponential is \<open>2 ^ - 1075\<close> or less the
  result is zero.
\<close>

definition np_exp :: "real \<Rightarrow> error + real" where
  "np_exp v =
     (if 2 ^ 1024 \<le> exp v then Inl NonFinite
      else if exp v \<le> 1 / 2 ^ 1075 then Inr 0
      else Inr (exp v))"

text \<open>
  One self-attention head. The row sums of the masked weights divide the rows; a row
  sum of zero (no valid position, or every weight of the row rounded to zero) gives
  \<^verbatim>\<open>nan\<close> rows.
\<close>

definition normalise_rows :: "mat \<Rightarrow> error + mat" where
  "normalise_rows a =
     collect (map (\<lambda>row. if np_sum row = 0 then Inl NonFinite
                          else Inr (map (\<lambda>v. v / np_sum row) row)) a)"

definition attention_weights :: "mat \<Rightarrow> mat \<Rightarrow> mat \<Rightarrow> mat \<Rightarrow> error + mat" where
  "attention_weights x left_mask' K Q =
     (let q = matmul x Q;
          k = matmul x K;
          a = map (\<lambda>qi. map (\<lambda>kj. dotv qi kj / sqrt (real EMBEDDING_SIZE)) k) q
      in err_bind (collect (map (\<lambda>row. collect (map np_exp row)) a))
           (\<lambda>e. normalise_rows (map2 vmul e left_mask')))"

definition self_attention :: "mat \<Rightarrow> mat \<Rightarrow> mat \<Rightarrow> mat \<Rightarrow> mat \<Rightarrow> error + mat" where
  "self_attention x left_mask' K V Q =
     err_bind (attention_weights x left_mask' K Q) (\<lambda>a. Inr (matmul a (matmul x V)))"

text \<open>\<^verbatim>\<open>np.concatenate(sa, axis=1)\<close>.\<close>

fun hstack :: "mat list \<Rightarrow> mat" where
  "hstack [] = []"
| "hstack [m] = m"
| "hstack (m # ms) = map2 (@) m (hstack ms)"

text \<open>
  An encoder block. The source writes the block three times, on the arrays
  \<^verbatim>\<open>d[1..40]\<close>, \<^verbatim>\<open>d[41..80]\<close> and \<^verbatim>\<open>d[81..120]\<close>; \<open>off\<close> is 0, 40 or 80.
\<close>

definition encoder_block :: "store \<Rightarrow> nat \<Rightarrow> mat \<Rightarrow> mat \<Rightarrow> error + mat" where
  "encoder_block d off left_mask' l_embed =
     err_bind
       (collect (map (\<lambda>b. self_attention l_embed left_mask'
                        (mat_of (d ! (off + 1 + 3 * b)))
                        (mat_of (d ! (off + 2 + 3 * b)))
                        (mat_of (d ! (off + 3 + 3 * b)))) [0..<10]))
       (\<lambda>sa.
          let l_dense = dense (hstack sa) (mat_of (d ! (off + 31))) (vec_of (d ! (off + 32)));
              l_add = madd l_dense l_embed;
              l_norm = layer_norm (vec_of (d ! (off + 33))) (vec_of (d ! (off + 34))) l_add;
              l_c1 = map relu (dense l_norm (hd (ten_of (d ! (off + 35)))) (vec_of (d ! (off + 36))));
              l_c2 = dense l_c1 (hd (ten_of (d ! (off + 37)))) (vec_of (d ! (off + 38)));
              l_ff = madd l_norm l_c2
          in Inr (layer_norm (vec_of (d ! (off + 39))) (vec_of (d ! (off + 40))) l_ff))"

definition encoder :: "store \<Rightarrow> nat \<Rightarrow> mat \<Rightarrow> error + mat" where
  "encoder d N e =
     (let left_mask' = left_mask N (length e)
      in err_bind (encoder_block d 0 left_mask' e) (\<lambda>e1.
         err_bind (encoder_block d 40 left_mask' e1) (\<lambda>e2.
         encoder_block d 80 left_mask' e2)))"

text \<open>
  The convolutions. The first has width 1; the source writes the others out one by one,
  with the widths, channels and array positions of \<open>conv_specs\<close>: a filter of width
  \<open>k\<close> runs over the \<open>NN - (k - 1)\<close> windows of \<open>k\<close> rows.
\<close>

definition conv_specs :: "(nat \<times> nat \<times> nat) list" where
  "conv_specs =
     [(2, 200, 123), (3, 200, 125), (4, 200, 127), (5, 200, 129), (6, 100, 131),
      (7, 100, 133), (8, 100, 135), (9, 100, 137), (10, 100, 139), (15, 160, 141),
      (20, 160, 143)]"

definition conv_first :: "store \<Rightarrow> mat \<Rightarrow> mat" where
  "conv_first d l_embed = map relu (dense l_embed (mat_of (d ! 121)) (vec_of (d ! 122)))"

definition conv_valid :: "store \<Rightarrow> mat \<Rightarrow> nat \<times> nat \<times> nat \<Rightarrow> mat" where
  "conv_valid d l_embed spec =
     (case spec of (k, c, idx) \<Rightarrow>
        let w = reshape_rows c (concat (concat (ten_of (d ! idx))))
        in map (\<lambda>i. relu (vadd (vecmat (concat (take k (drop i l_embed))) w)
                               (vec_of (d ! (idx + 1)))))
             [0..<length l_embed - (k - 1)])"

text \<open>
  \<^verbatim>\<open>np.argmax(l, axis=0)\<close> (the first index of the greatest entry of each column) and
  \<^verbatim>\<open>np.max(l, axis=0)\<close>.
\<close>

definition column :: "nat \<Rightarrow> mat \<Rightarrow> vec" where
  "column j m = map (\<lambda>row. row ! j) m"

fun argmax_from :: "real \<Rightarrow> nat \<Rightarrow> nat \<Rightarrow> vec \<Rightarrow> nat" where
  "argmax_from best pos i [] = pos"
| "argmax_from best pos i (v # vs) =
     (if best < v then argmax_from v i (Suc i) vs else argmax_from best pos (Suc i) vs)"

definition argmax_list :: "vec \<Rightarrow> nat" where
  "argmax_list vs = argmax_from (hd vs) 0 1 (tl vs)"

definition max_list :: "vec \<Rightarrow> real" where
  "max_list vs = foldl max (hd vs) (tl vs)"

definition np_argmax0 :: "mat \<Rightarrow> nat list" where
  "np_argmax0 m = map (\<lambda>j. argmax_list (column j m)) [0..<ncols m]"

definition np_max0 :: "mat \<Rightarrow> vec" where
  "np_max0 m = map (\<lambda>j. max_list (column j m)) [0..<ncols m]"

text \<open>The arrays of a forward pass that the relevance pass reads.\<close>

record trace =
  tr_embed :: mat
  tr_max :: "nat list list"
  tr_cnn :: vec
  tr_dense :: vec
  tr_identity_gated :: vec
  tr_transformed_gated :: vec
  tr_highway :: vec
  tr_out :: vec

definition sigmoid :: "real \<Rightarrow> real" where
  "sigmoid v = 1 / (1 + exp (- v))"

text \<open>
  The head of the network on the encoder's output: the twelve convolutions with their
  max-pools, the dense layer, the highway layer and the output layer, up to the
  sigmoid of a classification model. \<open>tr_out\<close> is \<^verbatim>\<open>l_out\<close> before line 507
  replaces its entry.
\<close>

definition head :: "store \<Rightarrow> string list \<Rightarrow> mat \<Rightarrow> trace" where
  "head d info l_embed =
     (let lcs = conv_first d l_embed # map (conv_valid d l_embed) conv_specs;
          l_cnn = concat (map np_max0 lcs);
          l_dense = relu (vadd (vecmat l_cnn (mat_of (d ! 145))) (vec_of (d ! 146)));
          transform_gate =
            map2 (\<lambda>z b. 1 / (1 + exp (- z - b)))
              (vecmat l_dense (mat_of (d ! 147))) (vec_of (d ! 148));
          carry_gate = map (\<lambda>g. 1 - g) transform_gate;
          transformed_data = relu (vadd (vecmat l_dense (mat_of (d ! 149))) (vec_of (d ! 150)));
          transformed_gated = vmul transform_gate transformed_data;
          identity_gated = vmul carry_gate l_dense;
          l_highway = vadd transformed_gated identity_gated;
          l_out = vadd (vecmat l_highway (mat_of (d ! 151))) (vec_of (d ! 152))
      in \<lparr> tr_embed = l_embed,
           tr_max = map np_argmax0 lcs,
           tr_cnn = l_cnn,
           tr_dense = l_dense,
           tr_identity_gated = identity_gated,
           tr_transformed_gated = transformed_gated,
           tr_highway = l_highway,
           tr_out = (if info ! 1 = ''classification'' then map sigmoid l_out else l_out) \<rparr>)"

text \<open>
  The forward pass on a padded token array \<open>x\<close> whose first \<open>N\<close> entries are the
  molecule's: lines 148 to 504 of the source.
\<close>

definition forward :: "store \<Rightarrow> string list \<Rightarrow> nat \<Rightarrow> nat list \<Rightarrow> error + trace" where
  "forward d info N x =
     err_bind (smiles_embed (mat_of (d ! 0)) x (pos_matrix N (length x))) (\<lambda>e.
     err_bind (encoder d N e) (\<lambda>l_embed.
     Inr (head d info l_embed)))"

section \<open>The relevance pass\<close>

text \<open>The slices of \<^verbatim>\<open>R_cnn\<close>, one per convolution.\<close>

definition cnn_slices :: "vec \<Rightarrow> vec list" where
  "cnn_slices R =
     [take 100 R, take 200 (drop 100 R), take 200 (drop 300 R), take 200 (drop 500 R),
      take 200 (drop 700 R), take 100 (drop 900 R), take 100 (drop 1000 R),
      take 100 (drop 1100 R), take 100 (drop 1200 R), take 100 (drop 1300 R),
      take 160 (drop 1400 R), drop 1560 R]"

text \<open>
  Lines 518 to 601. \<^verbatim>\<open>LRPCheck\<close> prints the sums it is given and leaves the process
  when a sum is \<^verbatim>\<open>nan\<close>; it changes no array, so it has no part in the model. The
  result is the final \<^verbatim>\<open>R_cnn\<close>.
\<close>

definition lrp :: "store \<Rightarrow> trace \<Rightarrow> vec \<Rightarrow> error + mat" where
  "lrp d tr l_out =
     err_bind (calcLRPDenseOut (tr_highway tr) (mat_of (d ! 151), vec_of (d ! 152)) l_out)
       (\<lambda>R_highway.
     err_bind (calcLRPAddition (tr_identity_gated tr) (tr_transformed_gated tr) (tr_highway tr)
                 R_highway)
       (\<lambda>(R_identity, R_transformed_gated).
     err_bind (calcLRPDenseInner (tr_dense tr) (mat_of (d ! 149), vec_of (d ! 150))
                 R_transformed_gated)
       (\<lambda>R_dense_high3.
     let R_input_highway = vadd R_identity R_dense_high3 in
     err_bind (calcLRPDenseInner (tr_cnn tr) (mat_of (d ! 145), vec_of (d ! 146))
                 R_input_highway)
       (\<lambda>R_cnn.
     err_bind (collect (map2 (calcLRPPool (tr_embed tr)) (tr_max tr) (cnn_slices R_cnn)))
       (\<lambda>ds.
     err_bind (calcLRPConv (tr_embed tr) (mat_of (d ! 121), vec_of (d ! 122)) (hd ds))
       (\<lambda>R_cnn_1.
     err_bind (collect (map2 (\<lambda>(k, c, idx) dk.
                  calcLRPConvStride (tr_embed tr) (ten_of (d ! idx), vec_of (d ! (idx + 1))) dk k)
                conv_specs (tl ds)))
       (\<lambda>R_cnn_rest.
     Inr (foldl madd R_cnn_1 R_cnn_rest))))))))"

section \<open>The whole pass\<close>

text \<open>
  \<^verbatim>\<open>calcQSAR(ch, atom, MolWt, doLrp, verbose)\<close>. The string \<open>mol\<close> is what
  \<^verbatim>\<open>MolToSmiles\<close> returns for the molecule rooted at the atom. Line 507,
  \<^verbatim>\<open>l_out[0] = eval(info[2])\<close>, hands the stored expression to the Python
  interpreter; \<open>ev\<close> stands for the interpreter: the value of an expression where
  \<^verbatim>\<open>result\<close> is the raw output, or \<open>None\<close> where \<^verbatim>\<open>eval\<close> raises. Without the
  relevance pass the result is the transformed score; with it, the score, the relevance
  of every position and the difference \<^verbatim>\<open>np.sum(l_out) - np.sum(R_cnn)\<close>.

  \<open>qsar_pass\<close> is the function from line 148 on, on the padded token array;
  \<open>calcQSAR\<close> builds the array (lines 139 to 146) and runs it.
\<close>

datatype qsar =
    Score (score: real)
  | Explained (score: real) (scores: vec) (gap: real)

type_synonym interpreter = "string \<Rightarrow> real \<Rightarrow> real option"

definition qsar_pass ::
  "interpreter \<Rightarrow> store \<Rightarrow> string list \<Rightarrow> nat \<Rightarrow> nat list \<Rightarrow> bool \<Rightarrow> error + qsar"
where
  "qsar_pass ev d info N x doLrp =
     err_bind (forward d info N x) (\<lambda>tr.
       case ev (info ! 2) (hd (tr_out tr)) of
         None \<Rightarrow> Inl EvalError
       | Some v \<Rightarrow>
           (let l_out = (tr_out tr)[0 := v]
            in if \<not> doLrp then Inr (Score (hd l_out))
               else err_bind (lrp d tr l_out) (\<lambda>R_cnn.
                 Inr (Explained (hd l_out) (map np_sum R_cnn) (np_sum l_out - np_sum2 R_cnn)))))"

definition calcQSAR ::
  "interpreter \<Rightarrow> store \<Rightarrow> string list \<Rightarrow> string \<Rightarrow> bool \<Rightarrow> error + qsar"
where
  "calcQSAR ev d info mol doLrp =
     err_bind (encode mol) (\<lambda>ks. qsar_pass ev d info (length mol) (padded ks) doLrp)"

section \<open>Shapes\<close>

text \<open>
  A matrix of \<open>r\<close> rows and \<open>c\<close> columns, and an encoder block at offset \<open>off\<close> of the
  store whose attention, projection and feed-forward weights are zero, of the shapes of
  the architecture.
\<close>

definition is_mat :: "nat \<Rightarrow> nat \<Rightarrow> mat \<Rightarrow> bool" where
  "is_mat r c m \<longleftrightarrow> length m = r \<and> (\<forall>row\<in>set m. length row = c)"

definition zero_block :: "store \<Rightarrow> nat \<Rightarrow> bool" where
  "zero_block d off \<longleftrightarrow>
     (\<forall>b<10. mat_of (d ! (off + 1 + 3 * b)) = zeros2 64 64 \<and>
             mat_of (d ! (off + 2 + 3 * b)) = zeros2 64 64 \<and>
             mat_of (d ! (off + 3 + 3 * b)) = zeros2 64 64) \<and>
     mat_of (d ! (off + 31)) = zeros2 640 64 \<and> vec_of (d ! (off + 32)) = zeros 64 \<and>
     length (vec_of (d ! (off + 33))) = 64 \<and> length (vec_of (d ! (off + 34))) = 64 \<and>
     ten_of (d ! (off + 35)) = [zeros2 64 512] \<and> vec_of (d ! (off + 36)) = zeros 512 \<and>
     ten_of (d ! (off + 37)) = [zeros2 512 64] \<and> vec_of (d ! (off + 38)) = zeros 64"

section \<open>Example weight stores\<close>

text \<open>
  Two weight stores of the shapes of the architecture, small enough to follow by hand.
  An encoder block with zero attention and feed-forward weights is the two layer
  normalisations, with scale \<open>gamma\<close> and offsets zero and \<open>beta\<close>.
\<close>

definition enc_block :: "vec \<Rightarrow> vec \<Rightarrow> tensor list" where
  "enc_block gamma beta =
     replicate 30 (T2 (zeros2 64 64)) @
     [T2 (zeros2 640 64), T1 (zeros 64), T1 gamma, T1 (zeros 64),
      T3 [zeros2 64 512], T1 (zeros 512), T3 [zeros2 512 64], T1 (zeros 64),
      T1 gamma, T1 beta]"

text \<open>
  In \<open>mask_store r0\<close> the embedding of the space, the token of the padding positions,
  is \<open>r0\<close>, that of token 1 is \<open>alt_row\<close>, of mean zero, and every other embedding is
  zero. A layer normalisation with scale one takes \<open>c\<close> times \<open>alt_row\<close> to \<open>gain c\<close>
  times \<open>alt_row\<close>; \<open>ln1\<close> is that normalisation. The second filter matrix of the
  convolution of width two reads \<open>alt_row\<close>; every other convolution is zero, and the
  dense and the output layer sum what they are given.
\<close>

definition alt_row :: vec where
  "alt_row = concat (replicate 32 [1, - 1])"

definition gain :: "real \<Rightarrow> real" where
  "gain c = c / (c + 1 / 10 ^ 6)"

definition ln1 :: "vec \<Rightarrow> vec" where
  "ln1 r = norm_row (replicate 64 1) (zeros 64) r"

definition mask_store :: "vec \<Rightarrow> store" where
  "mask_store r0 =
     [T2 (r0 # alt_row # replicate 64 (zeros 64))] @
     enc_block (replicate 64 1) (zeros 64) @
     enc_block (replicate 64 1) (zeros 64) @
     enc_block (replicate 64 1) (zeros 64) @
     [T2 (zeros2 64 100), T1 (zeros 100),
      T3 [zeros2 64 200, map (replicate 200) alt_row], T1 (zeros 200)] @
     concat (map (\<lambda>(k, c, idx). [T3 (replicate k (zeros2 64 c)), T1 (zeros c)]) (tl conv_specs)) @
     [T2 (replicate 1720 (replicate 512 1)), T1 (zeros 512),
      T2 (zeros2 512 512), T1 (zeros 512),
      T2 (zeros2 512 512), T1 (zeros 512),
      T2 (replicate 512 [1]), T1 [0]]"

text \<open>
  In \<open>const_store b\<close> the last layer normalisation has scale zero and offset one, so the
  encoder returns a matrix of ones for every input; the convolutions and the dense layer
  average, so every activation up to the dense layer is one. The output layer has
  weights \<open>1 / 256\<close> on a highway of \<open>1 / 2\<close> and the bias \<open>b\<close>: the raw output is
  \<open>1 + b\<close>. \<open>const_trace\<close> is the forward pass of \<open>const_store 1\<close>.
\<close>

definition const_store :: "real \<Rightarrow> store" where
  "const_store b =
     [T2 (replicate 66 (zeros 64))] @
     enc_block (zeros 64) (zeros 64) @
     enc_block (zeros 64) (zeros 64) @
     enc_block (zeros 64) (replicate 64 1) @
     [T2 (replicate 64 (replicate 100 (1 / 64))), T1 (zeros 100)] @
     concat (map (\<lambda>(k, c, idx).
        [T3 (replicate k (replicate 64 (replicate c (1 / (64 * real k))))), T1 (zeros c)])
        conv_specs) @
     [T2 (replicate 1720 (replicate 512 (1 / 1720))), T1 (zeros 512),
      T2 (zeros2 512 512), T1 (zeros 512),
      T2 (zeros2 512 512), T1 (zeros 512),
      T2 (replicate 512 [1 / 256]), T1 [b]]"

definition const_trace :: trace where
  "const_trace =
     \<lparr> tr_embed = replicate 22 (replicate 64 1),
       tr_max = replicate 100 0 # map (\<lambda>(k, c, idx). replicate c 0) conv_specs,
       tr_cnn = replicate 1720 1,
       tr_dense = replicate 512 1,
       tr_identity_gated = replicate 512 (1 / 2),
       tr_transformed_gated = replicate 512 0,
       tr_highway = replicate 512 (1 / 2),
       tr_out = [2] \<rparr>"

text \<open>
  The metadata of a regression model whose stored expression is \<^verbatim>\<open>result\<close>, and of
  one whose stored expression is \<^verbatim>\<open>result * result\<close>; and the Python interpreter on
  these two expressions (every other expression is left out: \<open>None\<close>).
\<close>

definition demo_info :: "string list" where
  "demo_info = [''demo'', ''regression'', ''result'', ''log units'']"

definition eval_result :: interpreter where
  "eval_result s result = (if s = ''result'' then Some result else None)"

definition square_info :: "string list" where
  "square_info = [''demo'', ''regression'', ''result * result'', ''log units'']"

definition eval_square :: interpreter where
  "eval_square s result = (if s = ''result * result'' then Some (result * result) else None)"

section \<open>Properties of the relevance rules\<close>

lemma length_vadd [simp]: "length (vadd xs ys) = min (length xs) (length ys)"
  by (simp add: vadd_def)

lemma length_vsub [simp]: "length (vsub xs ys) = min (length xs) (length ys)"
  by (simp add: vsub_def)

lemma length_vmul [simp]: "length (vmul xs ys) = min (length xs) (length ys)"
  by (simp add: vmul_def)

lemma length_vdiv [simp]: "length (vdiv xs ys) = min (length xs) (length ys)"
  by (simp add: vdiv_def)

lemma float_exp_numeral:
  "float_exp (numeral k) a =
     (if 2 \<le> a then float_exp (pred_numeral k) (a / 2) + 1
      else if a < 1 then float_exp (pred_numeral k) (2 * a) - 1
      else 0)"
  by (simp add: numeral_eq_Suc)

lemmas float_eval =
  float64_def float32_def np_float_def round_to_def quantum_def pow2_def round_half_even_def
  float_exp_numeral
  Let_def

lemma pow2_powr: "pow2 e = 2 powr (of_int e)"
proof (cases "0 \<le> e")
  case True
  then have "(2::real) ^ nat e = 2 powr (of_int e)"
    by (simp add: powr_realpow [symmetric])
  with True show ?thesis by (simp add: pow2_def)
next
  case False
  then have "(2::real) ^ nat (- e) = 2 powr (of_int (- e))"
    by (simp add: powr_realpow [symmetric])
  with False show ?thesis by (simp add: pow2_def powr_minus divide_inverse)
qed

lemma pow2_pos [simp]: "0 < pow2 e"
  by (simp add: pow2_powr)

lemma pow2_add: "pow2 (a + b) = pow2 a * pow2 b"
  by (simp add: pow2_powr powr_add)

lemma pow2_mono: "a \<le> b \<Longrightarrow> pow2 a \<le> pow2 b"
  by (simp add: pow2_powr)

lemma pow2_numeral: "pow2 0 = 1" "pow2 1 = 2" "pow2 (- 1) = 1 / 2"
  by (simp_all add: pow2_def)

lemma round_half_even_error: "\<bar>of_int (round_half_even t) - t\<bar> \<le> 1 / 2"
proof -
  have "of_int \<lfloor>t\<rfloor> \<le> t" "t < of_int \<lfloor>t\<rfloor> + 1" by linarith+
  then show ?thesis by (auto simp: round_half_even_def Let_def)
qed

lemma float_exp_bounds:
  "pow2 (- int n) \<le> a \<Longrightarrow> a < pow2 (int n + 1) \<Longrightarrow>
   pow2 (float_exp n a) \<le> a \<and> a < pow2 (float_exp n a + 1)"
proof (induction n arbitrary: a)
  case 0
  then show ?case by (simp add: pow2_numeral)
next
  case (Suc n)
  have up: "pow2 (int (Suc n) + 1) = 2 * pow2 (int n + 1)"
    using pow2_add [of 1 "int n + 1"] by (simp add: pow2_numeral add.commute)
  have down: "pow2 (- int n) = 2 * pow2 (- int (Suc n))"
    using pow2_add [of 1 "- int (Suc n)"] by (simp add: pow2_numeral)
  have one: "pow2 (- int n) \<le> 1" using pow2_mono [of "- int n" 0] by (simp add: pow2_numeral)
  have two: "2 \<le> pow2 (int n + 1)" using pow2_mono [of 1 "int n + 1"] by (simp add: pow2_numeral)
  consider "2 \<le> a" | "a < 1" | "1 \<le> a" "a < 2" by linarith
  then show ?case
  proof cases
    case 1
    have "pow2 (- int n) \<le> a / 2" using 1 one by simp
    moreover have "a / 2 < pow2 (int n + 1)" using Suc.prems(2) up by simp
    ultimately have "pow2 (float_exp n (a / 2)) \<le> a / 2 \<and> a / 2 < pow2 (float_exp n (a / 2) + 1)"
      by (rule Suc.IH)
    moreover have "pow2 (float_exp n (a / 2) + 1) = 2 * pow2 (float_exp n (a / 2))"
      "pow2 (float_exp n (a / 2) + 1 + 1) = 2 * pow2 (float_exp n (a / 2) + 1)"
      using pow2_add [of 1 "float_exp n (a / 2)"] pow2_add [of 1 "float_exp n (a / 2) + 1"]
      by (simp_all add: pow2_numeral add.commute)
    ultimately show ?thesis using 1 by simp
  next
    case 2
    have "pow2 (- int n) \<le> 2 * a" using Suc.prems(1) down by simp
    moreover have "2 * a < pow2 (int n + 1)" using 2 two by simp
    ultimately have "pow2 (float_exp n (2 * a)) \<le> 2 * a \<and> 2 * a < pow2 (float_exp n (2 * a) + 1)"
      by (rule Suc.IH)
    moreover have "pow2 (float_exp n (2 * a)) = 2 * pow2 (float_exp n (2 * a) - 1)"
      "pow2 (float_exp n (2 * a) + 1) = 2 * pow2 (float_exp n (2 * a))"
      using pow2_add [of 1 "float_exp n (2 * a) - 1"] pow2_add [of 1 "float_exp n (2 * a)"]
      by (simp_all add: pow2_numeral add.commute)
    ultimately show ?thesis using 2 by simp
  next
    case 3
    then show ?thesis by (simp add: pow2_numeral)
  qed
qed

lemma quantum_pos [simp]: "0 < quantum p emin x"
  by (simp add: quantum_def)

lemma quantum_le:
  assumes "\<bar>x\<bar> < pow2 (emax + 1)" and "- 2100 \<le> emin" and "emax \<le> 2100"
  shows "quantum p emin x \<le> max (\<bar>x\<bar> * pow2 (1 - int p)) (pow2 (emin - int p + 1))"
proof (cases "\<bar>x\<bar> < pow2 emin")
  case True
  then show ?thesis by (simp add: quantum_def)
next
  case False
  have "pow2 (- int 2100) \<le> pow2 emin" using assms(2) by (intro pow2_mono) simp
  then have lo: "pow2 (- int 2100) \<le> \<bar>x\<bar>" using False by simp
  have "pow2 (emax + 1) \<le> pow2 (int 2100 + 1)" using assms(3) by (intro pow2_mono) simp
  then have hi: "\<bar>x\<bar> < pow2 (int 2100 + 1)" using assms(1) by simp
  from float_exp_bounds [OF lo hi] have "pow2 (float_exp 2100 \<bar>x\<bar>) \<le> \<bar>x\<bar>" by simp
  moreover have "pow2 (float_exp 2100 \<bar>x\<bar> - int p + 1)
                 = pow2 (float_exp 2100 \<bar>x\<bar>) * pow2 (1 - int p)"
    using pow2_add [of "float_exp 2100 \<bar>x\<bar>" "1 - int p"] by (simp add: algebra_simps)
  ultimately have "quantum p emin x \<le> \<bar>x\<bar> * pow2 (1 - int p)"
    using False by (simp add: quantum_def mult_right_mono)
  then show ?thesis by simp
qed

lemma round_to_error: "\<bar>round_to p emin x - x\<bar> \<le> quantum p emin x / 2"
proof -
  let ?q = "quantum p emin x"
  have q: "0 < ?q" by simp
  from q have "?q \<noteq> 0" by (rule less_imp_neq [THEN not_sym])
  then have "round_to p emin x - x = (of_int (round_half_even (x / ?q)) - x / ?q) * ?q"
    by (simp add: round_to_def Let_def field_simps)
  then have "\<bar>round_to p emin x - x\<bar> = \<bar>of_int (round_half_even (x / ?q)) - x / ?q\<bar> * ?q"
    by (simp add: abs_mult abs_of_pos [OF q])
  also have "\<dots> \<le> 1 / 2 * ?q"
    by (rule mult_right_mono [OF round_half_even_error less_imp_le [OF q]])
  finally show ?thesis by simp
qed

lemma float64_error:
  assumes "float64 x = Inr y"
  shows "\<bar>y - x\<bar> \<le> max (\<bar>x\<bar> / 2 ^ 53) (1 / 2 ^ 1075)"
proof -
  from assms have x: "\<bar>x\<bar> < pow2 (1023 + 1)" and y: "y = round_to 53 (- 1022) x"
    by (auto simp: float64_def np_float_def split: if_splits)
  have a: "pow2 (1 - int 53) = 2 * pow2 (- 53)" "pow2 (- 1022 - int 53 + 1) = 2 * pow2 (- 1075)"
    using pow2_add [of 1 "- 53"] pow2_add [of 1 "- 1075"] by (simp_all add: pow2_numeral)
  have "quantum 53 (- 1022) x \<le> max (\<bar>x\<bar> * pow2 (1 - int 53)) (pow2 (- 1022 - int 53 + 1))"
    using x by (intro quantum_le [of x 1023]) simp_all
  then have "quantum 53 (- 1022) x / 2 \<le> max (\<bar>x\<bar> * pow2 (- 53)) (pow2 (- 1075))"
    unfolding a by (auto simp: max_def split: if_splits)
  moreover have "pow2 (- 53) = 1 / 2 ^ 53" "pow2 (- 1075) = 1 / 2 ^ 1075"
    by (simp_all add: pow2_def)
  ultimately have "quantum 53 (- 1022) x / 2 \<le> max (\<bar>x\<bar> / 2 ^ 53) (1 / 2 ^ 1075)"
    by (simp only: times_divide_eq_right mult_1_right)
  with round_to_error [of 53 "- 1022" x] show ?thesis unfolding y by (rule order_trans)
qed

lemma np_map2_Inr:
  "np_map2 f xs ys = Inr zs \<Longrightarrow>
   length zs = min (length xs) (length ys) \<and> (\<forall>i<length zs. f (xs ! i) (ys ! i) = Inr (zs ! i))"
proof (induction f xs ys arbitrary: zs rule: np_map2.induct)
  case (1 f x xs y ys)
  from "1.prems" obtain v vs where v: "f x y = Inr v" "np_map2 f xs ys = Inr vs" "zs = v # vs"
    by (auto split: sum.splits)
  from "1.IH" [OF v(1,2)] have vs: "length vs = min (length xs) (length ys)"
    "\<And>i. i < length vs \<Longrightarrow> f (xs ! i) (ys ! i) = Inr (vs ! i)" by auto
  have "f ((x # xs) ! i) ((y # ys) ! i) = Inr (zs ! i)" if "i < length zs" for i
    using that v vs(2) by (cases i) simp_all
  then show ?case using v vs(1) by simp
qed simp_all

text \<open>
  Claim C9, as the claim states it: the two vectors the additive merge returns sum, entry
  by entry, exactly to the incoming relevance. The rule computes
  \<^verbatim>\<open>r_second = R - r_first\<close> in \<^verbatim>\<open>float64\<close>, and the difference is rounded. With
  \<^verbatim>\<open>l_first = -20\<close>, \<^verbatim>\<open>l_sum = 3\<close> and \<^verbatim>\<open>R = -19\<close> the rule returns
  126.66666666666667 and -145.66666666666669, whose sum, exact or rounded once more, is
  -19.000000000000014.
\<close>

theorem calcLRPAddition_rounding_counterexample:
  "calcLRPAddition [- 20] [23] [3] [- 19]
     = Inr ([8913374262504107 / 2 ^ 46], [- 2562595100469931 / 2 ^ 44]) \<and>
   8913374262504107 / 2 ^ 46 + - 2562595100469931 / 2 ^ 44 = (- 1337006139375617 / 2 ^ 46 :: real) \<and>
   float64 (8913374262504107 / 2 ^ 46 + - 2562595100469931 / 2 ^ 44)
     = Inr (- 1337006139375617 / 2 ^ 46) \<and>
   - 1337006139375617 / 2 ^ 46 \<noteq> (- 19 :: real)"
proof -
  have a: "float64 (- 20 / 3) = Inr (- 7505999378950827 / 2 ^ 50)"
    by (simp add: float_eval)
  have b: "float64 (- 19 * (- 7505999378950827 / 2 ^ 50)) = Inr (8913374262504107 / 2 ^ 46)"
    by (simp add: float_eval)
  have c: "float64 (- 19 - 8913374262504107 / 2 ^ 46) = Inr (- 2562595100469931 / 2 ^ 44)"
    by (simp add: float_eval)
  have d: "float64 (8913374262504107 / 2 ^ 46 + - 2562595100469931 / 2 ^ 44)
           = Inr (- 1337006139375617 / 2 ^ 46)"
    by (simp add: float_eval)
  have "calcLRPAddition [- 20] [23] [3] [- 19]
        = Inr ([8913374262504107 / 2 ^ 46], [- 2562595100469931 / 2 ^ 44])"
    unfolding calcLRPAddition_def np_divide_def np_multiply_def np_subtract_def Let_def
    using a b c by simp
  with d show ?thesis by simp
qed

text \<open>
  Claim C9, amended. For every pair of branch activations, every sum tensor and every
  incoming relevance (arrays of one shape) on which the additive merge returns finite
  values, the two returned vectors sum, entry by entry, to the incoming relevance up to
  the one rounding of \<^verbatim>\<open>R - r_first\<close>: the difference is at most \<open>2 ^ - 53\<close> times
  \<open>\<bar>R - r_first\<bar>\<close> (and never more than \<open>2 ^ - 1075\<close> where that is smaller), also
  at the entries where the sum tensor is zero and the divisor is \<^verbatim>\<open>1.0e32\<close>.
\<close>

theorem calcLRPAddition_rounds:
  assumes "calcLRPAddition l_first l_second l_sum R = Inr (r_first, r_second)"
    and "length l_first = length R" and "length l_sum = length R"
  shows "length r_first = length R \<and> length r_second = length R \<and>
         (\<forall>i<length R. \<bar>r_first ! i + r_second ! i - R ! i\<bar>
                          \<le> max (\<bar>R ! i - r_first ! i\<bar> / 2 ^ 53) (1 / 2 ^ 1075))"
proof -
  from assms(1) obtain f where
    f: "np_divide l_first (map (\<lambda>s. if s = 0 then round_to 53 (- 1022) (10 ^ 32) else s) l_sum)
        = Inr f" and
    1: "np_multiply R f = Inr r_first" and 2: "np_subtract R r_first = Inr r_second"
    by (auto simp: calcLRPAddition_def Let_def split: sum.splits)
  have lf: "length f = length R"
    using np_map2_Inr [OF f [unfolded np_divide_def]] assms(2,3) by simp
  have l1: "length r_first = length R"
    using np_map2_Inr [OF 1 [unfolded np_multiply_def]] lf by simp
  have l2: "length r_second = length R"
    and s: "\<forall>i<length r_second. float64 (R ! i - r_first ! i) = Inr (r_second ! i)"
    using np_map2_Inr [OF 2 [unfolded np_subtract_def]] l1 by simp_all
  have "\<bar>r_first ! i + r_second ! i - R ! i\<bar>
          \<le> max (\<bar>R ! i - r_first ! i\<bar> / 2 ^ 53) (1 / 2 ^ 1075)" if "i < length R" for i
  proof -
    have "float64 (R ! i - r_first ! i) = Inr (r_second ! i)" using s that l2 by simp
    from float64_error [OF this] show ?thesis by (simp add: algebra_simps)
  qed
  with l1 l2 show ?thesis by blast
qed

theorem calcLRPAddition_rounds_witness:
  "calcLRPAddition [3, 2] [1, - 2] [4, 0] [8, 7]
     = Inr ([6, 1598517415830675 / 2 ^ 153], [2, 7]) \<and>
   \<bar>1598517415830675 / 2 ^ 153 + 7 - 7\<bar>
     \<le> max (\<bar>7 - 1598517415830675 / 2 ^ 153\<bar> / 2 ^ 53) (1 / 2 ^ 1075 :: real)"
proof -
  have c: "round_to 53 (- 1022) (10 ^ 32) = 100000000000000005366162204393472"
    by (simp add: float_eval)
  have a: "float64 (3 / 4) = Inr (3 / 4)" "float64 (8 * (3 / 4)) = Inr 6"
    "float64 (8 - 6) = Inr 2"
    by (simp_all add: float_eval)
  have b: "float64 (2 / 100000000000000005366162204393472) = Inr (3653754093327257 / 2 ^ 157)"
    "float64 (7 * (3653754093327257 / 2 ^ 157)) = Inr (1598517415830675 / 2 ^ 153)"
    "float64 (7 - 1598517415830675 / 2 ^ 153) = Inr 7"
    by (simp_all add: float_eval)
  have e: "calcLRPAddition [3, 2] [1, - 2] [4, 0] [8, 7]
           = Inr ([6, 1598517415830675 / 2 ^ 153], [2, 7])"
    unfolding calcLRPAddition_def np_divide_def np_multiply_def np_subtract_def Let_def
    using a b c by simp
  from calcLRPAddition_rounds [OF e] have
    "\<bar>[6, 1598517415830675 / 2 ^ 153] ! 1 + [2, 7] ! 1 - [8, 7] ! 1\<bar>
       \<le> max (\<bar>[8, 7] ! 1 - [6, 1598517415830675 / 2 ^ 153] ! 1\<bar> / 2 ^ 53) (1 / 2 ^ 1075 :: real)"
    by simp
  with e show ?thesis by simp
qed

subsection \<open>Max-pool: the loop in closed form\<close>

lemma pool_loop_ok:
  "pool_loop inds R is demax = Inr dm \<Longrightarrow>
   length dm = length demax \<and> (\<forall>c\<in>set is. inds ! c < length demax) \<and>
   (\<forall>r c. r < length demax \<longrightarrow> c < length (demax ! r) \<longrightarrow>
      length (dm ! r) = length (demax ! r) \<and>
      (if c \<in> set is \<and> inds ! c = r then float32 (R ! c) = Inr (dm ! r ! c)
       else dm ! r ! c = demax ! r ! c))"
proof (induction "is" arbitrary: demax)
  case Nil
  then show ?case by simp
next
  case (Cons i "is")
  from Cons.prems obtain v where ok: "inds ! i < length demax" "i < length R"
    and v: "float32 (R ! i) = Inr v"
    and rest: "pool_loop inds R is (demax[inds ! i := (demax ! (inds ! i))[i := v]]) = Inr dm"
    by (auto split: if_splits sum.splits)
  let ?d = "demax[inds ! i := (demax ! (inds ! i))[i := v]]"
  from Cons.IH [OF rest] have dm: "length dm = length ?d" "\<forall>c\<in>set is. inds ! c < length ?d"
    "\<And>r c. r < length ?d \<Longrightarrow> c < length (?d ! r) \<Longrightarrow>
        length (dm ! r) = length (?d ! r) \<and>
        (if c \<in> set is \<and> inds ! c = r then float32 (R ! c) = Inr (dm ! r ! c)
         else dm ! r ! c = ?d ! r ! c)"
    by blast+
  have "length dm = length demax" using dm(1) by simp
  moreover have "\<forall>c\<in>set (i # is). inds ! c < length demax" using dm(2) ok by simp
  moreover have "length (dm ! r) = length (demax ! r) \<and>
        (if c \<in> set (i # is) \<and> inds ! c = r then float32 (R ! c) = Inr (dm ! r ! c)
         else dm ! r ! c = demax ! r ! c)"
    if "r < length demax" "c < length (demax ! r)" for r c
  proof -
    have "r < length ?d" using that by simp
    moreover have len: "length (?d ! r) = length (demax ! r)" using that
      by (cases "r = inds ! i") simp_all
    ultimately have *: "length (dm ! r) = length (?d ! r) \<and>
        (if c \<in> set is \<and> inds ! c = r then float32 (R ! c) = Inr (dm ! r ! c)
         else dm ! r ! c = ?d ! r ! c)"
      using dm(3) [of r c] that by simp
    have "?d ! r ! c = (if c = i \<and> inds ! c = r then v else demax ! r ! c)"
      using that by (cases "r = inds ! i") (auto simp: nth_list_update)
    with * len v show ?thesis by (auto split: if_splits)
  qed
  ultimately show ?case by blast
qed

lemma calcLRPPool_entries:
  assumes "calcLRPPool l_embed inds R = Inr demax"
  shows "length demax = length l_embed \<and> (\<forall>i<length inds. inds ! i < length l_embed) \<and>
         (\<forall>r<length l_embed. \<forall>i<length inds.
            if inds ! i = r then float32 (R ! i) = Inr (demax ! r ! i) else demax ! r ! i = 0)"
proof -
  let ?z = "zeros2 (length l_embed) (length inds)"
  from pool_loop_ok [OF assms [unfolded calcLRPPool_def]] have dm:
    "length demax = length ?z" "\<forall>c\<in>set [0..<length inds]. inds ! c < length ?z"
    "\<And>r c. r < length ?z \<Longrightarrow> c < length (?z ! r) \<Longrightarrow>
        (if c \<in> set [0..<length inds] \<and> inds ! c = r then float32 (R ! c) = Inr (demax ! r ! c)
         else demax ! r ! c = ?z ! r ! c)"
    by blast+
  have "if inds ! i = r then float32 (R ! i) = Inr (demax ! r ! i) else demax ! r ! i = 0"
    if "r < length l_embed" "i < length inds" for r i
    using dm(3) [of r i] that by (simp add: zeros2_def zeros_def)
  then show ?thesis using dm(1,2) by (simp add: zeros2_def)
qed

text \<open>
  Claim C2, as the claim states it: for every channel the de-pooled relevance of the
  channel, summed over the positions, is exactly the incoming relevance of the channel.
  The rule writes the \<^verbatim>\<open>float64\<close> relevance into a \<^verbatim>\<open>float32\<close> matrix: the relevance
  16777217 comes out as 16777216.
\<close>

theorem calcLRPPool_float32_counterexample:
  "calcLRPPool [[1], [2]] [1] [16777217] = Inr [[0], [16777216]] \<and>
   (0 :: real) + 16777216 \<noteq> 16777217"
  by (simp add: calcLRPPool_def zeros2_def zeros_def float_eval)

text \<open>
  Claim C2, amended. At a max-pool backward step that returns finite values, for every
  channel the de-pooled relevance of the channel summed over the positions is exactly the
  incoming relevance of the channel rounded to single precision, and every position but
  the recorded argmax position gets exactly zero from the channel. (One entry of the
  column is not zero, so the sum is that entry in any order and any precision.)
\<close>

theorem calcLRPPool_routes:
  assumes "calcLRPPool l_embed inds R = Inr demax"
  shows "\<forall>i<length inds.
           float32 (R ! i) = Inr (\<Sum>r<length l_embed. demax ! r ! i) \<and>
           (\<forall>r<length l_embed. r \<noteq> inds ! i \<longrightarrow> demax ! r ! i = 0)"
proof -
  from calcLRPPool_entries [OF assms] have ok: "\<And>i. i < length inds \<Longrightarrow> inds ! i < length l_embed"
    and dm: "\<And>r i. r < length l_embed \<Longrightarrow> i < length inds \<Longrightarrow>
        if inds ! i = r then float32 (R ! i) = Inr (demax ! r ! i) else demax ! r ! i = 0"
    by blast+
  have "float32 (R ! i) = Inr (\<Sum>r<length l_embed. demax ! r ! i) \<and>
        (\<forall>r<length l_embed. r \<noteq> inds ! i \<longrightarrow> demax ! r ! i = 0)"
    if i: "i < length inds" for i
  proof -
    have z: "demax ! r ! i = 0" if "r < length l_embed" "r \<noteq> inds ! i" for r
      using dm [OF that(1) i] that(2) by (auto split: if_splits)
    have "(\<Sum>r<length l_embed. demax ! r ! i)
          = (\<Sum>r<length l_embed. if r = inds ! i then demax ! (inds ! i) ! i else 0)"
      by (rule sum.cong) (auto simp: z)
    also have "\<dots> = demax ! (inds ! i) ! i" using ok [OF i] by simp
    finally have "(\<Sum>r<length l_embed. demax ! r ! i) = demax ! (inds ! i) ! i" .
    moreover have "float32 (R ! i) = Inr (demax ! (inds ! i) ! i)"
      using dm [OF ok [OF i] i] by simp
    ultimately show ?thesis using z by simp
  qed
  then show ?thesis by blast
qed

theorem calcLRPPool_routes_witness:
  "calcLRPPool [[1, 2], [3, 4], [5, 6]] [2, 0] [5, 1 / 10]
     = Inr [[0, 13421773 / 2 ^ 27], [0, 0], [5, 0]] \<and>
   float32 (1 / 10) = Inr (13421773 / 2 ^ 27) \<and> float32 5 = Inr 5"
proof -
  have e: "calcLRPPool [[1, 2], [3, 4], [5, 6]] [2, 0] [5, 1 / 10]
           = Inr [[0, 13421773 / 2 ^ 27], [0, 0], [5, 0]]"
    by (simp add: calcLRPPool_def zeros2_def zeros_def float_eval)
  have "float32 (1 / 10) = Inr (13421773 / 2 ^ 27)" "float32 5 = Inr 5"
    using calcLRPPool_routes [OF e, rule_format, of 1] calcLRPPool_routes [OF e, rule_format, of 0]
    by simp_all
  with e show ?thesis by simp
qed

subsection \<open>Strided convolution: the loop bound\<close>

lemmas stride_eval =
  calcLRPConvStride_def stride_acc_def zeros_def reshape_rows.simps calcLRPDenseInner_def
  col_sums_def vadd_def vdiv_def dotv_def vmul_def add_rows_at_def madd_def Let_def
  np_sum2_def

text \<open>
  Claim C4. The forward pass of a filter of width \<open>k\<close> over \<open>NN\<close> rows has
  \<open>NN - k + 1\<close> windows, and the claim has the backward loop un-flatten the relevance of
  every one of them. The loop of \<^verbatim>\<open>calcLRPConvStride\<close> stops two windows short: over
  four rows with stride 2 the forward windows are 0, 1 and 2, the loop runs over
  \<^verbatim>\<open>range(1)\<close>, and the relevance 5 at window 2 (positions 2 and 3) is never
  un-flattened. The rescale then hands it to positions 0 and 1.
\<close>

theorem calcLRPConvStride_skips_last_windows:
  "calcLRPConvStride [[1], [1], [1], [1]] ([[[1]], [[1]]], [0]) [[3], [0], [5], [0]] 2
     = Inr [[4], [4], [0], [0]]"
  by (simp add: stride_eval)

section \<open>Properties of the input\<close>

lemma err_bind_Inr [simp]: "err_bind (Inr v) f = f v"
  by (simp add: err_bind_def)

lemma err_bind_Inl [simp]: "err_bind (Inl e) f = Inl e"
  by (simp add: err_bind_def)

lemma dict_dom:
  "dom (foldl (\<lambda>m (i, ch). m(ch \<mapsto> i)) m0 (enumerate n xs)) = dom m0 \<union> set xs"
  by (induction xs arbitrary: m0 n) auto

lemma char_to_ix_None: "char_to_ix c = None \<longleftrightarrow> c \<notin> set chars"
proof -
  have "dom char_to_ix = set chars"
    using dict_dom [of Map.empty 0 chars] by (simp add: char_to_ix_def)
  then show ?thesis by (metis domIff)
qed

lemma encode_KeyError:
  "\<exists>c\<in>set mol. c \<notin> set chars \<Longrightarrow>
   \<exists>c. encode mol = Inl (KeyError c) \<and> c \<in> set mol \<and> c \<notin> set chars"
proof (induction mol)
  case Nil
  then show ?case by simp
next
  case (Cons a mol)
  show ?case
  proof (cases "a \<in> set chars")
    case False
    then have "char_to_ix a = None" by (simp add: char_to_ix_None)
    with False show ?thesis by auto
  next
    case True
    then obtain k where k: "char_to_ix a = Some k"
      using char_to_ix_None [of a] by (cases "char_to_ix a") auto
    from True Cons.prems have "\<exists>c\<in>set mol. c \<notin> set chars" by auto
    from Cons.IH [OF this] obtain c where "encode mol = Inl (KeyError c)" "c \<in> set mol" "c \<notin> set chars"
      by blast
    with k show ?thesis by auto
  qed
qed

lemma encode_length: "encode mol = Inr ks \<Longrightarrow> length ks = length mol"
  by (induction mol arbitrary: ks) (auto split: option.splits sum.splits)

text \<open>
  Claim C8. When the string of the molecule has a character outside the vocabulary, the
  pass raises the \<^verbatim>\<open>KeyError\<close> of such a character, which nothing in the program
  catches, and no tensor is computed: the outcome is the same whatever the weight
  store, the metadata and the interpreter are.
\<close>

theorem calcQSAR_vocabulary_error:
  assumes "\<exists>c\<in>set mol. c \<notin> set chars"
  shows "\<exists>c. c \<in> set mol \<and> c \<notin> set chars \<and>
           (\<forall>ev d info doLrp. calcQSAR ev d info mol doLrp = Inl (KeyError c))"
proof -
  from encode_KeyError [OF assms] obtain c where
    "encode mol = Inl (KeyError c)" "c \<in> set mol" "c \<notin> set chars" by blast
  then show ?thesis by (auto simp: calcQSAR_def)
qed

theorem calcQSAR_vocabulary_error_witness:
  "calcQSAR (\<lambda>s r. Some r) [] [] ''C*'' True = Inl (KeyError (CHR ''*''))"
proof -
  have h: "\<exists>c\<in>set ''C*''. c \<notin> set chars" by (simp add: chars_def)
  from calcQSAR_vocabulary_error [OF h] obtain c where
    c: "c \<in> set ''C*''" "c \<notin> set chars"
    "calcQSAR (\<lambda>s r. Some r) [] [] ''C*'' True = Inl (KeyError c)" by blast
  from c(1,2) have "c = CHR ''*''" by (auto simp: chars_def)
  with c(3) show ?thesis by simp
qed

lemma pos_matrix_padding:
  "N \<le> i \<Longrightarrow> i < NN \<Longrightarrow> pos_matrix N NN ! i = zeros EMBEDDING_SIZE"
  by (simp add: pos_matrix_def)

lemma vadd_zeros_right: "length xs = n \<Longrightarrow> vadd xs (zeros n) = xs"
  by (rule nth_equalityI) (simp_all add: vadd_def zeros_def)

text \<open>
  Claim C10. For a molecule string of length \<open>N\<close> within the vocabulary, every padding
  position \<open>i\<close> with \<open>N \<le> i < N + 20\<close> holds token 0, which is the space of the
  vocabulary, its row of the positional encoding is zero, and so its row of the input
  embedding is the embedding of the space, on an embedding matrix with rows of width 64.
\<close>

theorem padding_rows:
  assumes "encode mol = Inr ks" and "length mol \<le> i" and "i < length mol + CONV_OFFSET"
  shows "padded ks ! i = 0 \<and> chars ! 0 = CHR '' '' \<and>
         pos_matrix (length mol) (length (padded ks)) ! i = zeros EMBEDDING_SIZE \<and>
         (\<forall>embed' E. length (embed' ! 0) = EMBEDDING_SIZE \<longrightarrow>
            smiles_embed embed' (padded ks) (pos_matrix (length mol) (length (padded ks))) = Inr E \<longrightarrow>
            E ! i = embed' ! 0)"
proof -
  have len: "length ks = length mol" using assms(1) by (rule encode_length)
  have x: "padded ks ! i = 0" using assms(2,3) len by (simp add: padded_def nth_append)
  have i: "i < length (padded ks)" using assms(3) len by (simp add: padded_def)
  have p: "pos_matrix (length mol) (length (padded ks)) ! i = zeros EMBEDDING_SIZE"
    using assms(2) i by (rule pos_matrix_padding)
  have "E ! i = embed' ! 0"
    if "length (embed' ! 0) = EMBEDDING_SIZE"
       "smiles_embed embed' (padded ks) (pos_matrix (length mol) (length (padded ks))) = Inr E"
    for embed' E
  proof -
    have "E = map2 (\<lambda>k p. vadd (embed' ! k) p) (padded ks) (pos_matrix (length mol) (length (padded ks)))"
      using that(2) by (auto simp: smiles_embed_def split: if_splits)
    then have "E ! i = vadd (embed' ! (padded ks ! i)) (pos_matrix (length mol) (length (padded ks)) ! i)"
      using i by (simp add: pos_matrix_def)
    then show ?thesis using x p that(1) by (simp add: vadd_zeros_right)
  qed
  then show ?thesis using x p by (simp add: chars_def)
qed

theorem padding_rows_witness:
  "encode ''C'' = Inr [24] \<and> padded [24] ! 1 = 0 \<and>
   (\<exists>E. smiles_embed (replicate 66 (replicate 64 7)) (padded [24]) (pos_matrix 1 21) = Inr E \<and>
        E ! 1 = replicate 64 7)"
proof -
  define E0 where
    "E0 = map2 (\<lambda>k p. vadd (replicate 66 (replicate 64 7) ! k) p) (padded [24]) (pos_matrix 1 21)"
  have h1: "encode ''C'' = Inr [24]" by (simp add: char_to_ix_def chars_def enumerate_eq_zip)
  have h2: "length ''C'' \<le> 1" by simp
  have h3: "1 < length ''C'' + CONV_OFFSET" by (simp add: CONV_OFFSET_def)
  have l: "length (padded [24]) = 21" by (simp add: padded_def CONV_OFFSET_def)
  have e: "smiles_embed (replicate 66 (replicate 64 7)) (padded [24])
             (pos_matrix (length ''C'') (length (padded [24]))) = Inr E0"
    by (simp add: smiles_embed_def padded_def CONV_OFFSET_def list_all_iff E0_def)
  have w: "length (replicate 66 (replicate 64 (7::real)) ! 0) = EMBEDDING_SIZE"
    by (simp add: EMBEDDING_SIZE_def)
  from padding_rows [OF h1 h2 h3] have
    a: "padded [24] ! 1 = 0" and
    b: "\<forall>embed' E. length (embed' ! 0) = EMBEDDING_SIZE \<longrightarrow>
            smiles_embed embed' (padded [24]) (pos_matrix (length ''C'') (length (padded [24]))) = Inr E \<longrightarrow>
            E ! 1 = embed' ! 0"
    by blast+
  from b w e have "E0 ! 1 = replicate 66 (replicate 64 7) ! 0" by blast
  then have "E0 ! 1 = replicate 64 7" by simp
  with h1 a e l show ?thesis by simp
qed

section \<open>Constant and zero tensors\<close>

lemma collect_replicate: "collect (replicate n (Inr v)) = Inr (replicate n v)"
  by (induction n) simp_all

lemma collect_map_Inr: "collect (map (\<lambda>x. Inr (f x)) xs) = Inr (map f xs)"
  by (induction xs) simp_all

lemma map2_replicate_right:
  "length xs = n \<Longrightarrow> map2 f xs (replicate n w) = map (\<lambda>x. f x w) xs"
  by (induction xs arbitrary: n) auto

lemma map2_replicate_left:
  "length ys = n \<Longrightarrow> map2 f (replicate n w) ys = map (\<lambda>y. f w y) ys"
  by (induction ys arbitrary: n) auto

lemma vadd_replicate [simp]:
  "vadd (replicate n a) (replicate n b) = replicate n (a + b)"
  by (induction n) (simp_all add: vadd_def)

lemma vmul_replicate [simp]:
  "vmul (replicate n a) (replicate n b) = replicate n (a * b)"
  by (induction n) (simp_all add: vmul_def)

lemma vdiv_replicate [simp]:
  "vdiv (replicate n a) (replicate n b) = replicate n (a / b)"
  by (induction n) (simp_all add: vdiv_def)

lemma vsub_replicate [simp]:
  "vsub (replicate n a) (replicate n b) = replicate n (a - b)"
  by (induction n) (simp_all add: vsub_def)

lemma vadd_zeros_left: "length xs = n \<Longrightarrow> vadd (zeros n) xs = xs"
  by (rule nth_equalityI) (simp_all add: vadd_def zeros_def)

lemma sum_list_replicate_real: "sum_list (replicate n (a::real)) = real n * a"
  by (induction n) (simp_all add: algebra_simps)

lemma relu_replicate: "relu (replicate n a) = replicate n (if a < 0 then 0 else a)"
  by (simp add: relu_def)

lemma col_sums_replicate:
  "col_sums c (replicate k (replicate c a)) = replicate c (real k * a)"
  by (induction k) (simp_all add: col_sums_def zeros_def algebra_simps)

lemma col_sums_map_replicate:
  "col_sums c (map (\<lambda>x. replicate c (f x)) xs) = replicate c (sum_list (map f xs))"
  by (induction xs) (simp_all add: col_sums_def zeros_def)

lemma col_sums_map2_replicate:
  "col_sums c (map2 (\<lambda>a b. replicate c (f a b)) xs ys) = replicate c (sum_list (map2 f xs ys))"
proof (induction xs arbitrary: ys)
  case Nil
  then show ?case by (simp add: col_sums_def zeros_def)
next
  case (Cons x xs)
  then show ?case by (cases ys) (simp_all add: col_sums_def zeros_def)
qed

lemma length_zeros [simp]: "length (zeros n) = n"
  by (simp add: zeros_def)

lemma length_zeros2 [simp]: "length (zeros2 r c) = r"
  by (simp add: zeros2_def)

lemma vmul_ones_left: "length xs = n \<Longrightarrow> vmul (replicate n 1) xs = xs"
  by (rule nth_equalityI) (simp_all add: vmul_def)

lemma ncols_replicate: "0 < n \<Longrightarrow> ncols (replicate n row) = length row"
  by (cases n) (simp_all add: ncols_def)

lemma ncols_map_replicate: "u \<noteq> [] \<Longrightarrow> ncols (map (replicate m) u) = m"
  by (cases u) (simp_all add: ncols_def)

text \<open>A matrix whose row \<open>i\<close> repeats \<open>u ! i\<close> in every column.\<close>

lemma vecmat_cols:
  assumes "length x = length u" and "u \<noteq> []"
  shows "vecmat x (map (replicate m) u) = replicate m (dotv x u)"
proof -
  have "map2 (\<lambda>xi wrow. map (\<lambda>wv. xi * wv) wrow) x (map (replicate m) u)
        = map (\<lambda>(a, b). replicate m (a * b)) (zip x u)"
    using assms(1) by (induction x u rule: list_induct2) simp_all
  then show ?thesis
    using assms(2)
    by (simp add: vecmat_def ncols_map_replicate dotv_def vmul_def col_sums_map2_replicate)
qed

lemma vecmat_zeros2: "0 < n \<Longrightarrow> vecmat x (zeros2 n m) = zeros m"
proof -
  assume n: "0 < n"
  have "map2 (\<lambda>xi wrow. map (\<lambda>wv. xi * wv) wrow) x (replicate n (replicate m 0))
        = replicate (min (length x) n) (replicate m (0::real))"
    by (rule nth_equalityI) simp_all
  then show ?thesis
    using n col_sums_replicate [of m "min (length x) n" 0]
    by (simp add: vecmat_def zeros2_def zeros_def ncols_replicate)
qed

lemma matmul_zeros2: "0 < n \<Longrightarrow> matmul x (zeros2 n m) = zeros2 (length x) m"
  by (simp add: matmul_def vecmat_zeros2 map_replicate_const) (simp add: zeros2_def)

lemma dense_zeros2:
  "0 < n \<Longrightarrow> dense x (zeros2 n m) (zeros m) = zeros2 (length x) m"
  by (simp add: dense_def vecmat_zeros2 map_replicate_const) (simp add: zeros2_def zeros_def)

lemma map_relu_zeros2: "map relu (zeros2 r c) = zeros2 r c"
  by (simp add: zeros2_def zeros_def relu_replicate)

lemma madd_zeros2_left: "is_mat r c x \<Longrightarrow> madd (zeros2 r c) x = x"
  unfolding is_mat_def madd_def zeros2_def
  by (rule nth_equalityI) (simp_all add: vadd_zeros_left)

lemma madd_zeros2_right: "is_mat r c x \<Longrightarrow> madd x (zeros2 r c) = x"
  unfolding is_mat_def madd_def zeros2_def
  by (rule nth_equalityI) (simp_all add: vadd_zeros_right)

lemma hstack_zeros2: "hstack (replicate (Suc n) (zeros2 r c)) = zeros2 r (Suc n * c)"
proof (induction n)
  case 0
  then show ?case by simp
next
  case (Suc n)
  have "hstack (replicate (Suc (Suc n)) (zeros2 r c))
        = map2 (@) (zeros2 r c) (hstack (replicate (Suc n) (zeros2 r c)))"
    by simp
  also have "\<dots> = zeros2 r (Suc (Suc n) * c)"
    unfolding Suc.IH
    by (rule nth_equalityI) (simp_all add: zeros2_def zeros_def replicate_add [symmetric])
  finally show ?case .
qed

lemma length_norm_row:
  "length gamma = c \<Longrightarrow> length beta = c \<Longrightarrow> length row = c \<Longrightarrow>
   length (norm_row gamma beta row) = c"
  by (simp add: norm_row_def)

lemma is_mat_layer_norm:
  "length gamma = c \<Longrightarrow> length beta = c \<Longrightarrow> is_mat r c x \<Longrightarrow>
   is_mat r c (layer_norm gamma beta x)"
  by (auto simp: is_mat_def layer_norm_def length_norm_row)

text \<open>Attention with zero weights.\<close>

lemma np_exp_finite:
  assumes "\<bar>v\<bar> \<le> 600"
  shows "np_exp v = Inr (exp v)"
proof -
  have e: "exp (600::real) \<le> 3 ^ 600"
    using exp_of_nat_mult [of 600 "1::real"] power_mono [OF exp_le, of 600] by simp
  have p: "(3::real) ^ 600 < 2 ^ 1024" "1 / 2 ^ 1075 < 1 / (3::real) ^ 600" by simp_all
  have "exp v \<le> exp 600" using assms by simp
  then have up: "exp v < 2 ^ 1024"
    by (rule le_less_trans [OF order_trans [OF _ e] p(1)])
  have "exp (- 600) \<le> exp v" using assms by simp
  moreover have "exp (- 600 :: real) = 1 / exp 600" by (simp add: exp_minus divide_inverse)
  ultimately have b: "1 / exp 600 \<le> exp v" by (simp only:)
  have a: "1 / (3 ^ 600 :: real) \<le> 1 / exp 600"
    using e by (intro divide_left_mono) simp_all
  have lo: "1 / 2 ^ 1075 < exp v"
    by (rule less_le_trans [OF p(2) order_trans [OF a b]])
  show ?thesis using up lo by (simp add: np_exp_def)
qed

lemma np_exp_zero [simp]: "np_exp 0 = Inr 1"
  using np_exp_finite [of 0] by simp

lemma attention_zero:
  assumes "length x = NN" and "0 < N" and "N \<le> NN"
  shows "self_attention x (left_mask N NN) (zeros2 64 64) (zeros2 64 64) (zeros2 64 64)
         = Inr (zeros2 NN 64)"
proof -
  let ?row = "replicate N (1::real) @ replicate (NN - N) 0"
  have NN: "0 < NN" using assms by simp
  have q: "matmul x (zeros2 64 64) = replicate NN (replicate 64 0)"
    using assms(1) by (simp add: matmul_zeros2) (simp add: zeros2_def zeros_def)
  have a: "map (\<lambda>qi. map (\<lambda>kj. dotv qi kj / sqrt (real EMBEDDING_SIZE))
                 (replicate NN (replicate 64 0))) (replicate NN (replicate 64 (0::real)))
           = replicate NN (replicate NN 0)"
    by (simp add: dotv_def sum_list_replicate_real)
  have e: "collect (map (\<lambda>row. collect (map np_exp row)) (replicate NN (replicate NN 0)))
           = Inr (replicate NN (replicate NN 1))"
    by (simp add: collect_replicate)
  have len: "length ?row = NN" using assms(3) by simp
  have r: "vmul (replicate NN 1) ?row = ?row"
    using len by (rule vmul_ones_left)
  have m: "map2 vmul (replicate NN (replicate NN 1)) (left_mask N NN) = replicate NN ?row"
    using r by (intro nth_equalityI) (simp_all add: left_mask_def)
  have s: "np_sum ?row = real N" by (simp add: np_sum_def sum_list_replicate_real)
  have w: "attention_weights x (left_mask N NN) (zeros2 64 64) (zeros2 64 64)
           = Inr (replicate NN (map (\<lambda>v. v / real N) ?row))"
    unfolding attention_weights_def Let_def q a e err_bind_def sum.case m normalise_rows_def
    using assms(2) by (simp add: s collect_replicate)
  show ?thesis
    using NN by (simp add: self_attention_def w q) (simp add: matmul_def vecmat_zeros2 [unfolded zeros2_def zeros_def] zeros2_def zeros_def)
qed

lemma encoder_block_zero:
  assumes z: "zero_block d off" and x: "is_mat NN 64 x" and N: "0 < N" "N \<le> NN"
  shows "encoder_block d off (left_mask N NN) x =
         Inr (layer_norm (vec_of (d ! (off + 39))) (vec_of (d ! (off + 40)))
                (layer_norm (vec_of (d ! (off + 33))) (vec_of (d ! (off + 34))) x))"
proof -
  have len: "length x = NN" using x by (simp add: is_mat_def)
  have heads: "map (\<lambda>b. self_attention x (left_mask N NN)
                        (mat_of (d ! (off + 1 + 3 * b)))
                        (mat_of (d ! (off + 2 + 3 * b)))
                        (mat_of (d ! (off + 3 + 3 * b)))) [0..<10]
        = replicate 10 (Inr (zeros2 NN 64))"
    using z attention_zero [OF len N]
    by (intro nth_equalityI) (simp_all add: zero_block_def)
  have hs: "hstack (replicate 10 (zeros2 NN 64)) = zeros2 NN 640"
    using hstack_zeros2 [of 9 NN 64] by (simp add: eval_nat_numeral)
  let ?n1 = "layer_norm (vec_of (d ! (off + 33))) (vec_of (d ! (off + 34))) x"
  have n1: "is_mat NN 64 ?n1"
    using z x by (intro is_mat_layer_norm) (simp_all add: zero_block_def)
  then have ln1: "length ?n1 = NN" by (simp add: is_mat_def)
  show ?thesis
    unfolding encoder_block_def heads collect_replicate
    using z
    by (simp add: hs zero_block_def dense_zeros2
        madd_zeros2_left [OF x] Let_def ln1 map_relu_zeros2 madd_zeros2_right [OF n1])
qed

lemma reshape_rows_concat:
  "0 < c \<Longrightarrow> \<forall>row\<in>set m. length row = c \<Longrightarrow> reshape_rows c (concat m) = m"
proof (induction m)
  case Nil
  then show ?case by (simp add: reshape_rows.simps)
next
  case (Cons row m)
  then have "row \<noteq> []" by auto
  with Cons show ?case by (subst reshape_rows.simps) simp
qed

lemma concat_replicate_zeros2: "concat (replicate k (zeros2 r c)) = zeros2 (k * r) c"
  by (induction k) (simp_all add: zeros2_def replicate_add)

lemma max_list_replicate: "max_list (replicate (Suc n) v) = v"
proof -
  have "foldl max v (replicate n v) = v" by (induction n) simp_all
  then show ?thesis by (simp add: max_list_def)
qed

lemma argmax_from_replicate: "argmax_from v a i (replicate n v) = a"
  by (induction n arbitrary: i) simp_all

lemma argmax_list_replicate: "argmax_list (replicate (Suc n) v) = 0"
  by (simp add: argmax_list_def argmax_from_replicate)

lemma column_replicate: "j < c \<Longrightarrow> column j (replicate n (replicate c v)) = replicate n v"
  by (simp add: column_def)

lemma np_max0_replicate: "np_max0 (replicate (Suc n) (replicate c v)) = replicate c v"
  unfolding np_max0_def
  by (rule nth_equalityI)
     (simp_all add: ncols_def column_def max_list_replicate [simplified])

lemma np_argmax0_replicate: "np_argmax0 (replicate (Suc n) (replicate c v)) = replicate c 0"
  unfolding np_argmax0_def
  by (rule nth_equalityI)
     (simp_all add: ncols_def column_def argmax_list_replicate [simplified])

lemma vecmat_const:
  "length x = n \<Longrightarrow> 0 < n \<Longrightarrow>
   vecmat x (replicate n (replicate m c)) = replicate m (c * sum_list x)"
proof -
  assume a: "length x = n" "0 < n"
  have 1: "replicate n (replicate m c) = map (replicate m) (replicate n c)" by simp
  have 2: "dotv x (replicate n c) = c * sum_list x"
    using a(1) by (induction x arbitrary: n) (auto simp: dotv_def vmul_def algebra_simps)
  show ?thesis unfolding 1 using a vecmat_cols [of x "replicate n c" m] by (simp add: 2)
qed

text \<open>A window against a filter whose first rows are zero.\<close>

lemma col_sums_zero_rows:
  "\<forall>row\<in>set s. length row = c \<Longrightarrow> col_sums c (replicate k (zeros c) @ s) = col_sums c s"
proof (induction k)
  case 0
  then show ?case by simp
next
  case (Suc k)
  have len: "length (col_sums c s) = c" using Suc.prems
    by (induction s) (simp_all add: col_sums_def)
  from Suc show ?case by (simp add: col_sums_def vadd_zeros_left len [unfolded col_sums_def])
qed

lemma vecmat_zero_rows:
  assumes "length a = n" and "0 < n" and "length q = length u" and "u \<noteq> []"
  shows "vecmat (a @ q) (zeros2 n m @ map (replicate m) u) = replicate m (dotv q u)"
proof -
  have nc: "ncols (zeros2 n m @ map (replicate m) u) = m"
    using assms(2) by (cases n) (simp_all add: ncols_def zeros2_def zeros_def)
  have z: "map2 (\<lambda>xi wrow. map (\<lambda>wv. xi * wv) wrow) a (zeros2 n m) = replicate n (zeros m)"
    using assms(1) by (intro nth_equalityI) (simp_all add: zeros2_def zeros_def)
  have s: "map2 (\<lambda>xi wrow. map (\<lambda>wv. xi * wv) wrow) q (map (replicate m) u)
        = map2 (\<lambda>a b. replicate m (a * b)) q u"
    using assms(3) by (induction q u rule: list_induct2) simp_all
  have "map2 (\<lambda>xi wrow. map (\<lambda>wv. xi * wv) wrow) (a @ q) (zeros2 n m @ map (replicate m) u)
        = replicate n (zeros m) @ map2 (\<lambda>a b. replicate m (a * b)) q u"
    using assms(1) by (simp add: z s)
  moreover have "\<forall>row\<in>set (map2 (\<lambda>a b. replicate m (a * b)) q u). length row = m"
    by (auto simp: set_zip)
  ultimately show ?thesis
    by (simp add: vecmat_def nc col_sums_zero_rows col_sums_map2_replicate dotv_def vmul_def)
qed

section \<open>The forward pass of the store that reads the padding\<close>

lemma map_alt: "map f (concat (replicate n [1, - 1])) = concat (replicate n [f 1, f (- 1)])"
  by (induction n) simp_all

lemma concat_pairs: "concat (replicate n [a, a]) = replicate (2 * n) a"
  by (induction n) simp_all

lemma sum_concat_replicate:
  "sum_list (concat (replicate n xs)) = real n * sum_list (xs :: real list)"
  by (induction n) (simp_all add: algebra_simps)

lemma length_alt_row [simp]: "length alt_row = 64"
  by (simp add: alt_row_def length_concat sum_list_replicate)

lemma alt_row_nonempty [simp]: "alt_row \<noteq> []"
  using length_alt_row by fastforce

lemma sum_scaled_alt: "sum_list (map ((*) c) alt_row) = 0"
  by (simp add: alt_row_def map_alt sum_concat_replicate)

lemma squares_scaled_alt: "map (\<lambda>v. (c * v)\<^sup>2) alt_row = replicate 64 (c\<^sup>2)"
  by (simp add: alt_row_def map_alt concat_pairs)

lemma dotv_scaled_alt: "dotv (map ((*) c) alt_row) alt_row = 64 * c"
proof -
  have "vmul (map ((*) c) (concat (replicate n [1, - 1]))) (concat (replicate n [1, - 1]))
        = replicate (2 * n) c" for n
    by (induction n) (simp_all add: vmul_def)
  then show ?thesis by (simp add: dotv_def alt_row_def sum_list_replicate_real)
qed

lemma zeros_scaled_alt: "zeros 64 = map ((*) 0) alt_row"
  by (simp add: alt_row_def map_alt concat_pairs zeros_def)

lemma norm_row_scaled_alt:
  assumes "0 \<le> c"
  shows "norm_row (replicate 64 1) (zeros 64) (map ((*) c) alt_row) = map ((*) (gain c)) alt_row"
proof -
  have m: "np_mean (map ((*) c) alt_row) = 0" by (simp add: np_mean_def sum_scaled_alt)
  have "map (\<lambda>v. (v - 0)\<^sup>2) (map ((*) c) alt_row) = replicate 64 (c\<^sup>2)"
    using squares_scaled_alt [of c] by (simp add: o_def)
  then have s: "np_std (map ((*) c) alt_row) = c"
    unfolding np_std_def m using assms
    by (simp add: np_mean_def sum_list_replicate_real)
  show ?thesis
    unfolding norm_row_def m s
    by (simp add: vmul_ones_left vadd_zeros_right gain_def)
qed

lemma gain_nonneg: "0 \<le> c \<Longrightarrow> 0 \<le> gain c"
  by (simp add: gain_def)

lemma length_enc_block [simp]: "length (enc_block g b) = 40"
  by (simp add: enc_block_def)

lemma enc_block_att: "i < 30 \<Longrightarrow> enc_block g be ! i = T2 (zeros2 64 64)"
  by (simp add: enc_block_def nth_append)

lemma enc_block_nth:
  "enc_block g be ! 30 = T2 (zeros2 640 64)"
  "enc_block g be ! 31 = T1 (zeros 64)"
  "enc_block g be ! 32 = T1 g"
  "enc_block g be ! 33 = T1 (zeros 64)"
  "enc_block g be ! 34 = T3 [zeros2 64 512]"
  "enc_block g be ! 35 = T1 (zeros 512)"
  "enc_block g be ! 36 = T3 [zeros2 512 64]"
  "enc_block g be ! 37 = T1 (zeros 64)"
  "enc_block g be ! 38 = T1 g"
  "enc_block g be ! 39 = T1 be"
  by (simp_all add: enc_block_def nth_append)

lemma zero_block_enc:
  assumes "\<And>i. i < 40 \<Longrightarrow> d ! (off + 1 + i) = enc_block g be ! i" and "length g = 64"
  shows "zero_block d off"
proof -
  have a: "d ! (off + 1 + 3 * b) = T2 (zeros2 64 64)"
          "d ! (off + 2 + 3 * b) = T2 (zeros2 64 64)"
          "d ! (off + 3 + 3 * b) = T2 (zeros2 64 64)" if "b < 10" for b
  proof -
    have e: "off + 2 + 3 * b = off + 1 + (1 + 3 * b)" "off + 3 + 3 * b = off + 1 + (2 + 3 * b)"
      by simp_all
    have i: "3 * b < 30" "1 + 3 * b < 30" "2 + 3 * b < 30" "3 * b < 40" "1 + 3 * b < 40"
      "2 + 3 * b < 40" using that by simp_all
    show "d ! (off + 1 + 3 * b) = T2 (zeros2 64 64)"
      using assms(1) [OF i(4)] enc_block_att [OF i(1)] by simp
    show "d ! (off + 2 + 3 * b) = T2 (zeros2 64 64)"
      unfolding e using assms(1) [OF i(5)] enc_block_att [OF i(2)] by simp
    show "d ! (off + 3 + 3 * b) = T2 (zeros2 64 64)"
      unfolding e using assms(1) [OF i(6)] enc_block_att [OF i(3)] by simp
  qed
  have b: "d ! (off + 31) = T2 (zeros2 640 64)" "d ! (off + 32) = T1 (zeros 64)"
    "d ! (off + 33) = T1 g" "d ! (off + 34) = T1 (zeros 64)"
    "d ! (off + 35) = T3 [zeros2 64 512]" "d ! (off + 36) = T1 (zeros 512)"
    "d ! (off + 37) = T3 [zeros2 512 64]" "d ! (off + 38) = T1 (zeros 64)"
    using assms(1) [of 30] assms(1) [of 31] assms(1) [of 32] assms(1) [of 33]
      assms(1) [of 34] assms(1) [of 35] assms(1) [of 36] assms(1) [of 37]
    by (simp_all add: enc_block_nth add.commute)
  show ?thesis
    unfolding zero_block_def using a b assms(2) by simp
qed

lemma mask_store_blocks:
  "i < 40 \<Longrightarrow> mask_store r0 ! (0 + 1 + i) = enc_block (replicate 64 1) (zeros 64) ! i"
  "i < 40 \<Longrightarrow> mask_store r0 ! (40 + 1 + i) = enc_block (replicate 64 1) (zeros 64) ! i"
  "i < 40 \<Longrightarrow> mask_store r0 ! (80 + 1 + i) = enc_block (replicate 64 1) (zeros 64) ! i"
  by (simp_all add: mask_store_def nth_append)

lemma mask_store_zero_block:
  "zero_block (mask_store r0) 0" "zero_block (mask_store r0) 40" "zero_block (mask_store r0) 80"
  by (rule zero_block_enc [OF mask_store_blocks(1)], simp_all)
     (rule zero_block_enc [OF mask_store_blocks(2)], simp_all,
      rule zero_block_enc [OF mask_store_blocks(3)], simp_all)

lemma mask_store_norms:
  "vec_of (mask_store r0 ! 33) = replicate 64 1" "vec_of (mask_store r0 ! 34) = zeros 64"
  "vec_of (mask_store r0 ! 39) = replicate 64 1" "vec_of (mask_store r0 ! 40) = zeros 64"
  "vec_of (mask_store r0 ! 73) = replicate 64 1" "vec_of (mask_store r0 ! 74) = zeros 64"
  "vec_of (mask_store r0 ! 79) = replicate 64 1" "vec_of (mask_store r0 ! 80) = zeros 64"
  "vec_of (mask_store r0 ! 113) = replicate 64 1" "vec_of (mask_store r0 ! 114) = zeros 64"
  "vec_of (mask_store r0 ! 119) = replicate 64 1" "vec_of (mask_store r0 ! 120) = zeros 64"
  using mask_store_blocks(1) [of 32] mask_store_blocks(1) [of 33]
    mask_store_blocks(1) [of 38] mask_store_blocks(1) [of 39]
    mask_store_blocks(2) [of 32] mask_store_blocks(2) [of 33]
    mask_store_blocks(2) [of 38] mask_store_blocks(2) [of 39]
    mask_store_blocks(3) [of 32] mask_store_blocks(3) [of 33]
    mask_store_blocks(3) [of 38] mask_store_blocks(3) [of 39]
  by (simp_all add: enc_block_nth)

lemma mask_store_head:
  "mask_store r0 ! 0 = T2 (r0 # alt_row # replicate 64 (zeros 64))"
  "mask_store r0 ! 121 = T2 (zeros2 64 100)" "mask_store r0 ! 122 = T1 (zeros 100)"
  "mask_store r0 ! 123 = T3 [zeros2 64 200, map (replicate 200) alt_row]"
  "mask_store r0 ! 124 = T1 (zeros 200)"
  "mask_store r0 ! 145 = T2 (replicate 1720 (replicate 512 1))" "mask_store r0 ! 146 = T1 (zeros 512)"
  "mask_store r0 ! 147 = T2 (zeros2 512 512)" "mask_store r0 ! 148 = T1 (zeros 512)"
  "mask_store r0 ! 149 = T2 (zeros2 512 512)" "mask_store r0 ! 150 = T1 (zeros 512)"
  "mask_store r0 ! 151 = T2 (replicate 512 [1])" "mask_store r0 ! 152 = T1 [0]"
  by (simp_all add: mask_store_def nth_append conv_specs_def)

lemma mask_store_convs:
  "(k, c, idx) \<in> set (tl conv_specs) \<Longrightarrow>
   mask_store r0 ! idx = T3 (replicate k (zeros2 64 c)) \<and> mask_store r0 ! (idx + 1) = T1 (zeros c)"
  by (auto simp: mask_store_def nth_append conv_specs_def)

lemma pos_matrix_one:
  "pos_matrix 1 (Suc n) = map (pos_entry 0) [0..<EMBEDDING_SIZE] # replicate n (zeros EMBEDDING_SIZE)"
  by (rule nth_equalityI) (auto simp: pos_matrix_def nth_Cons' simp del: upt_Suc)

lemma layer_norm_rows:
  "layer_norm g b (r # replicate n p) = norm_row g b r # replicate n (norm_row g b p)"
  by (simp add: layer_norm_def)

lemma is_mat_rows: "length r = c \<Longrightarrow> length p = c \<Longrightarrow> is_mat (Suc n) c (r # replicate n p)"
  by (auto simp: is_mat_def)

lemma length_ln1: "length r = 64 \<Longrightarrow> length (ln1 r) = 64"
  by (simp add: ln1_def length_norm_row)

lemma mask_block:
  assumes "off = 0 \<or> off = 40 \<or> off = 80" and "length r = 64" and "0 \<le> c"
  shows "encoder_block (mask_store r0) off (left_mask (Suc 0) 21) (r # replicate 20 (map ((*) c) alt_row))
         = Inr (ln1 (ln1 r) # replicate 20 (map ((*) (gain (gain c))) alt_row))"
proof -
  have z: "zero_block (mask_store r0) off" using assms(1) mask_store_zero_block by auto
  have n: "vec_of (mask_store r0 ! (off + 33)) = replicate 64 1"
          "vec_of (mask_store r0 ! (off + 34)) = zeros 64"
          "vec_of (mask_store r0 ! (off + 39)) = replicate 64 1"
          "vec_of (mask_store r0 ! (off + 40)) = zeros 64"
    using assms(1) mask_store_norms by auto
  have m: "is_mat 21 64 (r # replicate 20 (map ((*) c) alt_row))"
    using is_mat_rows [of r 64 "map ((*) c) alt_row" 20] assms(2) by simp
  have "encoder_block (mask_store r0) off (left_mask (Suc 0) 21)
          (r # replicate 20 (map ((*) c) alt_row))
        = Inr (layer_norm (vec_of (mask_store r0 ! (off + 39))) (vec_of (mask_store r0 ! (off + 40)))
                (layer_norm (vec_of (mask_store r0 ! (off + 33))) (vec_of (mask_store r0 ! (off + 34)))
                  (r # replicate 20 (map ((*) c) alt_row))))"
    by (rule encoder_block_zero [OF z m]) simp_all
  then show ?thesis
    unfolding n layer_norm_rows
    using assms(3) by (simp add: norm_row_scaled_alt gain_nonneg ln1_def)
qed

lemma mask_encoder:
  assumes "length r = 64" and "0 \<le> c"
  shows "\<exists>r'. length r' = 64 \<and>
           encoder (mask_store r0) 1 (r # replicate 20 (map ((*) c) alt_row))
           = Inr (r' # replicate 20 (map ((*) (gain (gain (gain (gain (gain (gain c))))))) alt_row))"
proof -
  have l: "length (ln1 (ln1 r)) = 64" "length (ln1 (ln1 (ln1 (ln1 r)))) = 64"
    "length (ln1 (ln1 (ln1 (ln1 (ln1 (ln1 r)))))) = 64"
    using assms(1) by (simp_all add: length_ln1)
  have g: "0 \<le> gain (gain c)" "0 \<le> gain (gain (gain (gain c)))"
    using assms(2) by (simp_all add: gain_nonneg)
  have "encoder (mask_store r0) 1 (r # replicate 20 (map ((*) c) alt_row))
        = Inr (ln1 (ln1 (ln1 (ln1 (ln1 (ln1 r))))) #
               replicate 20 (map ((*) (gain (gain (gain (gain (gain (gain c))))))) alt_row))"
    by (simp add: encoder_def Let_def mask_block assms l g)
  with l(3) show ?thesis by blast
qed

lemma is_mat_zeros2_rows: "\<forall>row\<in>set (zeros2 r c). length row = c"
  by (simp add: zeros2_def)

lemma conv_valid_zero:
  assumes "d ! idx = T3 (replicate k (zeros2 64 c))" and "d ! (idx + 1) = T1 (zeros c)"
    and "0 < k" and "0 < c"
  shows "conv_valid d l_embed (k, c, idx) = zeros2 (length l_embed - (k - 1)) c"
proof -
  have w: "reshape_rows c (concat (concat (replicate k (zeros2 64 c)))) = zeros2 (k * 64) c"
    using assms(4) by (simp add: concat_replicate_zeros2 reshape_rows_concat is_mat_zeros2_rows)
  have r: "relu (vadd (vecmat x (zeros2 (k * 64) c)) (zeros c)) = zeros c" for x
    using assms(3) by (simp add: vecmat_zeros2) (simp add: zeros_def relu_replicate)
  show ?thesis
    unfolding conv_valid_def prod.case Let_def assms(1,2) ten_of.simps vec_of.simps w r
    by (simp add: map_replicate_const zeros2_def)
qed

lemma windows_of_rows:
  assumes "i < 20"
  shows "concat (take 2 (drop i (r # replicate 20 q))) = (if i = 0 then r else q) @ q"
proof (cases i)
  case 0
  then show ?thesis by (simp add: eval_nat_numeral)
next
  case (Suc j)
  then have "j < 19" using assms by simp
  then have "take 2 (replicate (20 - j) q) = [q, q]"
    by (simp add: eval_nat_numeral min_def)
  with Suc show ?thesis by simp
qed

lemma conv_valid_second:
  assumes "length r = 64" and "0 \<le> c"
  shows "conv_valid (mask_store r0) (r # replicate 20 (map ((*) c) alt_row)) (2, 200, 123)
         = replicate 20 (replicate 200 (64 * c))"
proof -
  let ?q = "map ((*) c) alt_row"
  have w: "reshape_rows 200 (concat (concat [zeros2 64 200, map (replicate 200) alt_row]))
           = zeros2 64 200 @ map (replicate 200) alt_row"
    using reshape_rows_concat [of 200 "zeros2 64 200 @ map (replicate 200) alt_row"]
    by (auto simp: zeros2_def zeros_def)
  have v: "relu (vadd (vecmat (concat (take 2 (drop i (r # replicate 20 ?q))))
                         (zeros2 64 200 @ map (replicate 200) alt_row)) (zeros 200))
           = replicate 200 (64 * c)" if "i < 20" for i
  proof -
    have "vecmat ((if i = 0 then r else ?q) @ ?q)
            (zeros2 64 200 @ map (replicate 200) alt_row) = replicate 200 (dotv ?q alt_row)"
      using assms(1) by (intro vecmat_zero_rows) simp_all
    then show ?thesis
      using assms(2) by (simp add: windows_of_rows [OF that] dotv_scaled_alt zeros_def relu_replicate)
  qed
  have n: "123 + 1 = (124::nat)" by simp
  show ?thesis
    unfolding conv_valid_def prod.case Let_def n mask_store_head ten_of.simps vec_of.simps w
    by (rule nth_equalityI) (simp_all add: v)
qed

lemma np_max0_zeros2: "0 < n \<Longrightarrow> np_max0 (zeros2 n c) = zeros c"
  using np_max0_replicate [of "n - 1" c 0] by (simp add: zeros2_def zeros_def)

lemma np_argmax0_zeros2: "0 < n \<Longrightarrow> np_argmax0 (zeros2 n c) = replicate c 0"
  using np_argmax0_replicate [of "n - 1" c 0] by (simp add: zeros2_def zeros_def)

lemma mask_convs:
  "map (conv_valid (mask_store r0) l) (tl conv_specs)
   = map (\<lambda>(k, c, idx). zeros2 (length l - (k - 1)) c) (tl conv_specs)"
proof (rule map_cong [OF refl])
  fix s assume s: "s \<in> set (tl conv_specs)"
  obtain k c idx where e: "s = (k, c, idx)" by (cases s) auto
  have p: "0 < k" "0 < c" using s e by (auto simp: conv_specs_def)
  show "conv_valid (mask_store r0) l s = (case s of (k, c, idx) \<Rightarrow> zeros2 (length l - (k - 1)) c)"
    using mask_store_convs [of k c idx] s e p by (simp add: conv_valid_zero)
qed

lemma mask_cnn:
  assumes "length r = 64" and "0 \<le> c"
  shows "concat (map np_max0
           (conv_first (mask_store r0) (r # replicate 20 (map ((*) c) alt_row)) #
            map (conv_valid (mask_store r0) (r # replicate 20 (map ((*) c) alt_row))) conv_specs))
         = zeros 100 @ replicate 200 (64 * c) @ zeros 1420"
proof -
  let ?l = "r # replicate 20 (map ((*) c) alt_row)"
  have f: "conv_first (mask_store r0) ?l = zeros2 21 100"
    by (simp add: conv_first_def mask_store_head dense_zeros2 map_relu_zeros2)
  have s: "conv_specs = (2, 200, 123) # tl conv_specs" by (simp add: conv_specs_def)
  have t: "concat (map np_max0 (map (\<lambda>(k, c, idx). zeros2 (length ?l - (k - 1)) c) (tl conv_specs)))
           = zeros 1420"
    by (simp add: conv_specs_def np_max0_zeros2 zeros_def replicate_add [symmetric])
  show ?thesis
    apply (subst s)
    apply (simp only: list.map concat.simps f conv_valid_second [OF assms] mask_convs t)
    apply (simp add: np_max0_zeros2 np_max0_replicate [of 19 200, simplified])
    done
qed

lemma map2_replicate: "map2 f (replicate n a) (replicate n b) = replicate n (f a b)"
  by (induction n) simp_all

lemma mask_head_out:
  assumes "length r = 64" and "0 \<le> c"
  shows "tr_out (head (mask_store r0) demo_info (r # replicate 20 (map ((*) c) alt_row)))
         = [3276800 * c]"
proof -
  let ?cnn = "zeros 100 @ replicate 200 (64 * c) @ zeros 1420"
  have d: "relu (vadd (vecmat ?cnn (replicate 1720 (replicate 512 1))) (zeros 512))
           = replicate 512 (12800 * c)"
    using assms(2) vecmat_const [of ?cnn 1720 512 1]
    by (simp add: zeros_def relu_replicate sum_list_replicate_real)
  have o: "vecmat (replicate 512 (6400 * c)) (replicate 512 [1]) = [3276800 * c]"
    using vecmat_const [of "replicate 512 (6400 * c)" 512 1 1]
    by (simp add: sum_list_replicate_real)
  show ?thesis
    unfolding head_def Let_def mask_cnn [OF assms] mask_store_head mat_of.simps vec_of.simps d
    by (simp add: vecmat_zeros2 demo_info_def o)
       (simp add: zeros_def map2_replicate relu_replicate o vadd_def)
qed

lemma mask_embed:
  assumes "t < 66" and "length r0 = 64"
  shows "smiles_embed (mat_of (mask_store r0 ! 0)) (24 # replicate 20 t)
           (pos_matrix 1 (length (24 # replicate 20 t)))
         = Inr (map (pos_entry 0) [0..<EMBEDDING_SIZE] #
                replicate 20 ((r0 # alt_row # replicate 64 (zeros 64)) ! t))"
proof -
  have p: "pos_matrix 1 (length (24 # replicate 20 t))
           = map (pos_entry 0) [0..<EMBEDDING_SIZE] # replicate 20 (zeros EMBEDDING_SIZE)"
    using pos_matrix_one [of 20] by simp
  have l: "length ((r0 # alt_row # replicate 64 (zeros 64)) ! t) = 64"
    using assms by (auto simp: nth_Cons' )
  have z: "(r0 # alt_row # replicate 64 (zeros 64)) ! 24 = zeros 64"
    by (simp add: nth_Cons')
  show ?thesis
    unfolding p mask_store_head mat_of.simps smiles_embed_def
    using assms l
    by (simp add: list_all_iff z vadd_zeros_left vadd_zeros_right EMBEDDING_SIZE_def map2_replicate_right)
qed

lemma mask_pass:
  assumes "t < 66" and "(r0 # alt_row # replicate 64 (zeros 64)) ! t = map ((*) c) alt_row"
    and "0 \<le> c" and "length r0 = 64"
  shows "qsar_pass eval_result (mask_store r0) demo_info 1 (24 # replicate 20 t) False
         = Inr (Score (3276800 * gain (gain (gain (gain (gain (gain c)))))))"
proof -
  let ?r = "map (pos_entry 0) [0..<EMBEDDING_SIZE]"
  have lr: "length ?r = 64" by (simp add: EMBEDDING_SIZE_def)
  from mask_encoder [OF lr assms(3)] obtain r' where r': "length r' = 64"
    "encoder (mask_store r0) 1 (?r # replicate 20 (map ((*) c) alt_row))
     = Inr (r' # replicate 20 (map ((*) (gain (gain (gain (gain (gain (gain c))))))) alt_row))"
    by blast
  have g: "0 \<le> gain (gain (gain (gain (gain (gain c)))))"
    using assms(3) by (simp add: gain_nonneg)
  have f: "forward (mask_store r0) demo_info 1 (24 # replicate 20 t)
           = Inr (head (mask_store r0) demo_info
                    (r' # replicate 20 (map ((*) (gain (gain (gain (gain (gain (gain c))))))) alt_row)))"
    unfolding forward_def mask_embed [OF assms(1,4)] assms(2) using r'(2) by simp
  have i: "demo_info ! 2 = ''result''" by (simp add: demo_info_def)
  show ?thesis
    unfolding qsar_pass_def f
    by (simp add: mask_head_out [OF r'(1) g] i eval_result_def)
qed

section \<open>The forward pass of the store of constant activations\<close>

lemma const_store_blocks:
  "i < 40 \<Longrightarrow> const_store b ! (0 + 1 + i) = enc_block (zeros 64) (zeros 64) ! i"
  "i < 40 \<Longrightarrow> const_store b ! (40 + 1 + i) = enc_block (zeros 64) (zeros 64) ! i"
  "i < 40 \<Longrightarrow> const_store b ! (80 + 1 + i) = enc_block (zeros 64) (replicate 64 1) ! i"
  by (simp_all add: const_store_def nth_append)

lemma const_store_zero_block:
  "zero_block (const_store b) 0" "zero_block (const_store b) 40" "zero_block (const_store b) 80"
  by (rule zero_block_enc [OF const_store_blocks(1)], simp_all)
     (rule zero_block_enc [OF const_store_blocks(2)], simp_all,
      rule zero_block_enc [OF const_store_blocks(3)], simp_all)

lemma const_store_norms:
  "vec_of (const_store b ! (0 + 33)) = zeros 64" "vec_of (const_store b ! (0 + 34)) = zeros 64"
  "vec_of (const_store b ! (0 + 39)) = zeros 64" "vec_of (const_store b ! (0 + 40)) = zeros 64"
  "vec_of (const_store b ! (40 + 33)) = zeros 64" "vec_of (const_store b ! (40 + 34)) = zeros 64"
  "vec_of (const_store b ! (40 + 39)) = zeros 64" "vec_of (const_store b ! (40 + 40)) = zeros 64"
  "vec_of (const_store b ! (80 + 33)) = zeros 64" "vec_of (const_store b ! (80 + 34)) = zeros 64"
  "vec_of (const_store b ! (80 + 39)) = zeros 64" "vec_of (const_store b ! (80 + 40)) = replicate 64 1"
  using const_store_blocks(1) [of 32] const_store_blocks(1) [of 33]
    const_store_blocks(1) [of 38] const_store_blocks(1) [of 39]
    const_store_blocks(2) [of 32] const_store_blocks(2) [of 33]
    const_store_blocks(2) [of 38] const_store_blocks(2) [of 39]
    const_store_blocks(3) [of 32] const_store_blocks(3) [of 33]
    const_store_blocks(3) [of 38] const_store_blocks(3) [of 39]
  by (simp_all add: enc_block_nth)

lemma const_store_head:
  "const_store b ! 0 = T2 (replicate 66 (zeros 64))"
  "const_store b ! 121 = T2 (replicate 64 (replicate 100 (1 / 64)))"
  "const_store b ! 122 = T1 (zeros 100)"
  "const_store b ! 145 = T2 (replicate 1720 (replicate 512 (1 / 1720)))"
  "const_store b ! 146 = T1 (zeros 512)"
  "const_store b ! 147 = T2 (zeros2 512 512)" "const_store b ! 148 = T1 (zeros 512)"
  "const_store b ! 149 = T2 (zeros2 512 512)" "const_store b ! 150 = T1 (zeros 512)"
  "const_store b ! 151 = T2 (replicate 512 [1 / 256])" "const_store b ! 152 = T1 [b]"
  by (simp_all add: const_store_def nth_append conv_specs_def)

lemma const_store_convs:
  "(k, c, idx) \<in> set conv_specs \<Longrightarrow>
   const_store b ! idx = T3 (replicate k (replicate 64 (replicate c (1 / (64 * real k))))) \<and>
   const_store b ! (idx + 1) = T1 (zeros c)"
  by (auto simp: const_store_def nth_append conv_specs_def)

text \<open>Layer normalisation with a zero scale.\<close>

lemma norm_row_zero_scale:
  "length row = c \<Longrightarrow> length beta = c \<Longrightarrow> norm_row (zeros c) beta row = beta"
proof -
  assume a: "length row = c" "length beta = c"
  have "vmul (zeros c) (map (\<lambda>v. v - np_mean row) row) = zeros c"
    using a(1) by (intro nth_equalityI) (simp_all add: vmul_def zeros_def)
  then show ?thesis
    using a(2) by (simp add: norm_row_def vadd_zeros_left) (simp add: zeros_def vadd_zeros_left [unfolded zeros_def])
qed

lemma layer_norm_zero_scale:
  "is_mat r c x \<Longrightarrow> length beta = c \<Longrightarrow> layer_norm (zeros c) beta x = replicate r beta"
  unfolding layer_norm_def is_mat_def
  by (intro nth_equalityI) (simp_all add: norm_row_zero_scale)

lemma is_mat_replicate: "length row = c \<Longrightarrow> is_mat r c (replicate r row)"
  by (simp add: is_mat_def)

lemma const_block:
  assumes "off = 0 \<or> off = 40 \<or> off = 80" and "is_mat NN 64 x" and "0 < N" and "N \<le> NN"
  shows "encoder_block (const_store b) off (left_mask N NN) x
         = Inr (replicate NN (vec_of (const_store b ! (off + 40))))"
proof -
  have z: "zero_block (const_store b) off" using assms(1) const_store_zero_block by auto
  have n: "vec_of (const_store b ! (off + 33)) = zeros 64"
          "vec_of (const_store b ! (off + 34)) = zeros 64"
          "vec_of (const_store b ! (off + 39)) = zeros 64"
          "length (vec_of (const_store b ! (off + 40))) = 64"
    using assms(1) const_store_norms by auto
  have "encoder_block (const_store b) off (left_mask N NN) x
        = Inr (layer_norm (vec_of (const_store b ! (off + 39))) (vec_of (const_store b ! (off + 40)))
                (layer_norm (vec_of (const_store b ! (off + 33))) (vec_of (const_store b ! (off + 34))) x))"
    by (rule encoder_block_zero [OF z assms(2,3,4)])
  then show ?thesis
    unfolding n(1,2,3)
    using assms(2) n(4)
    by (simp add: layer_norm_zero_scale is_mat_replicate)
qed

lemma const_encoder:
  assumes "is_mat NN 64 x" and "0 < N" and "N \<le> NN"
  shows "encoder (const_store b) N x = Inr (replicate NN (replicate 64 1))"
proof -
  have l: "length x = NN" using assms(1) by (simp add: is_mat_def)
  have m: "is_mat NN 64 (replicate NN (zeros 64))" by (simp add: is_mat_replicate)
  have b: "vec_of (const_store b ! 40) = zeros 64" "vec_of (const_store b ! 80) = zeros 64"
    "vec_of (const_store b ! 120) = replicate 64 1"
    using const_store_norms by simp_all
  show ?thesis
    using const_block [of 0 NN x N] const_block [of 40 NN "replicate NN (zeros 64)" N]
      const_block [of 80 NN "replicate NN (zeros 64)" N] assms m
    by (simp add: encoder_def Let_def l b)
qed

lemma concat_replicate_replicate: "concat (replicate k (replicate r x)) = replicate (k * r) x"
  by (induction k) (simp_all add: replicate_add)

lemma const_filter:
  "0 < c \<Longrightarrow>
   reshape_rows c (concat (concat (replicate k (replicate 64 (replicate c v)))))
   = replicate (k * 64) (replicate c v)"
  unfolding concat_replicate_replicate [of k 64 "replicate c v"]
  by (rule reshape_rows_concat) simp_all

lemma const_window:
  "i + k \<le> n \<Longrightarrow> concat (take k (drop i (replicate n (replicate 64 a)))) = replicate (k * 64) a"
  by (simp add: concat_replicate_replicate min_def)

lemma conv_valid_const:
  assumes "d ! idx = T3 (replicate k (replicate 64 (replicate c (1 / (64 * real k)))))"
    and "d ! (idx + 1) = T1 (zeros c)" and "0 < k" and "0 < c" and "k \<le> n"
  shows "conv_valid d (replicate n (replicate 64 1)) (k, c, idx)
         = replicate (n - (k - 1)) (replicate c 1)"
proof -
  have v: "relu (vadd (vecmat (concat (take k (drop i (replicate n (replicate 64 1)))))
                  (replicate (k * 64) (replicate c (1 / (64 * real k))))) (zeros c))
           = replicate c 1" if "i < n - (k - 1)" for i
  proof -
    have "i + k \<le> n" using that assms(3,5) by simp
    then have w: "concat (take k (drop i (replicate n (replicate 64 1)))) = replicate (k * 64) (1::real)"
      by (rule const_window)
    show ?thesis
      unfolding w
      using assms(3) vecmat_const [of "replicate (k * 64) 1" "k * 64" c "1 / (64 * real k)"]
      by (simp add: zeros_def relu_replicate sum_list_replicate_real)
  qed
  have "map (\<lambda>i. relu (vadd (vecmat (concat (take k (drop i (replicate n (replicate 64 1)))))
                  (replicate (k * 64) (replicate c (1 / (64 * real k))))) (zeros c)))
          [0..<n - (k - 1)]
        = map (\<lambda>i. replicate c 1) [0..<n - (k - 1)]"
    by (rule map_cong [OF refl], rule v) simp
  then show ?thesis
    unfolding conv_valid_def prod.case Let_def assms(1,2) ten_of.simps vec_of.simps
      const_filter [OF assms(4)]
    by (simp add: map_replicate_const)
qed

lemma const_convs:
  "map (conv_valid (const_store b) (replicate 22 (replicate 64 1))) conv_specs
   = map (\<lambda>(k, c, idx). replicate (22 - (k - 1)) (replicate c 1)) conv_specs"
proof (rule map_cong [OF refl])
  fix s assume s: "s \<in> set conv_specs"
  obtain k c idx where e: "s = (k, c, idx)" by (cases s) auto
  have p: "0 < k" "0 < c" "k \<le> 22" using s e by (auto simp: conv_specs_def)
  show "conv_valid (const_store b) (replicate 22 (replicate 64 1)) s
        = (case s of (k, c, idx) \<Rightarrow> replicate (22 - (k - 1)) (replicate c 1))"
    using const_store_convs [of k c idx] s e p by (simp add: conv_valid_const)
qed

lemma const_first:
  "conv_first (const_store b) (replicate 22 (replicate 64 1)) = replicate 22 (replicate 100 1)"
  using vecmat_const [of "replicate 64 1" 64 100 "1 / 64"]
  by (simp add: conv_first_def const_store_head dense_def zeros_def relu_replicate
      sum_list_replicate_real)

lemma np_max0_const: "0 < n \<Longrightarrow> np_max0 (replicate n (replicate c v)) = replicate c v"
  using np_max0_replicate [of "n - 1" c v] by simp

lemma np_argmax0_const: "0 < n \<Longrightarrow> np_argmax0 (replicate n (replicate c v)) = replicate c 0"
  using np_argmax0_replicate [of "n - 1" c v] by simp

lemma const_head:
  assumes "info ! 1 \<noteq> ''classification''"
  shows "head (const_store b) info (replicate 22 (replicate 64 1)) =
     \<lparr> tr_embed = replicate 22 (replicate 64 1),
       tr_max = replicate 100 0 # map (\<lambda>(k, c, idx). replicate c 0) conv_specs,
       tr_cnn = replicate 1720 1,
       tr_dense = replicate 512 1,
       tr_identity_gated = replicate 512 (1 / 2),
       tr_transformed_gated = replicate 512 0,
       tr_highway = replicate 512 (1 / 2),
       tr_out = [1 + b] \<rparr>"
proof -
  have mx: "map np_max0 (map (\<lambda>(k, c, idx). replicate (22 - (k - 1)) (replicate c 1)) conv_specs)
            = map (\<lambda>(k, c, idx). replicate c 1) conv_specs"
    by (simp add: conv_specs_def np_max0_const)
  have am: "map np_argmax0 (map (\<lambda>(k, c, idx). replicate (22 - (k - 1)) (replicate c 1)) conv_specs)
            = map (\<lambda>(k, c, idx). replicate c 0) conv_specs"
    by (simp add: conv_specs_def np_argmax0_const)
  have cnn: "concat (replicate 100 1 # map (\<lambda>(k, c, idx). replicate c (1::real)) conv_specs)
             = replicate 1720 1"
    by (simp add: conv_specs_def replicate_add [symmetric])
  have d: "relu (vadd (vecmat (replicate 1720 1) (replicate 1720 (replicate 512 (1 / 1720))))
             (zeros 512)) = replicate 512 1"
    using vecmat_const [of "replicate 1720 1" 1720 512 "1 / 1720"]
    by (simp add: zeros_def relu_replicate sum_list_replicate_real)
  have o: "vecmat (replicate 512 (1 / 2)) (replicate 512 [1 / 256]) = [1]"
    using vecmat_const [of "replicate 512 (1 / 2)" 512 1 "1 / 256"]
    by (simp add: sum_list_replicate_real)
  show ?thesis
    unfolding head_def Let_def list.map const_first const_convs mx am
      np_max0_const [of 22 100 1, simplified] np_argmax0_const [of 22 100 1, simplified]
      cnn const_store_head mat_of.simps vec_of.simps d
    using assms
    by (simp add: vecmat_zeros2)
       (simp add: zeros_def map2_replicate relu_replicate o vadd_def)
qed

lemma is_mat_pos_matrix: "is_mat NN 64 (pos_matrix N NN)"
  by (auto simp: is_mat_def pos_matrix_def EMBEDDING_SIZE_def)

lemma is_mat_smiles_embed:
  assumes "smiles_embed e x pos = Inr E" and "\<forall>row\<in>set e. length row = c"
    and "is_mat n c pos" and "length x = n"
  shows "is_mat n c E"
proof -
  have E: "E = map2 (\<lambda>k p. vadd (e ! k) p) x pos" and k: "\<forall>k\<in>set x. k < length e"
    using assms(1) by (auto simp: smiles_embed_def list_all_iff split: if_splits)
  show ?thesis
    unfolding E is_mat_def using assms(2,3,4) k
    by (auto simp: is_mat_def set_zip) 
qed

lemma const_forward:
  assumes "info ! 1 \<noteq> ''classification''"
  shows "forward (const_store b) info 2 (padded [24, 24])
         = Inr (const_trace \<lparr> tr_out := [1 + b] \<rparr>)"
proof -
  have x: "padded [24, 24] = [24, 24] @ replicate 20 0" "length (padded [24, 24]) = 22"
    by (simp_all add: padded_def CONV_OFFSET_def)
  have "list_all (\<lambda>k. k < length (replicate 66 (zeros 64))) (padded [24, 24])"
    by (simp add: x list_all_iff)
  then obtain E where E: "smiles_embed (replicate 66 (zeros 64)) (padded [24, 24]) (pos_matrix 2 22) = Inr E"
    by (simp add: smiles_embed_def)
  have "is_mat 22 64 E"
    by (rule is_mat_smiles_embed [OF E _ is_mat_pos_matrix x(2)]) simp
  then have "encoder (const_store b) 2 E = Inr (replicate 22 (replicate 64 1))"
    by (rule const_encoder) simp_all
  then show ?thesis
    unfolding forward_def x(2) const_store_head mat_of.simps E err_bind_Inr
    by (simp add: const_head [OF assms] const_trace_def)
qed

section \<open>Shapes of the results\<close>

text \<open>Lengths of the results depend on the lengths of the arguments only.\<close>

lemma length_col_sums:
  "length (col_sums c m) = foldr (\<lambda>r n. min (length r) n) m c"
  by (induction m) (simp_all add: col_sums_def)

lemma foldr_min_length:
  "foldr (\<lambda>r n. min (length r) n) m c = foldr min (map length m) c"
  by (simp add: foldr_map o_def)

lemma length_vecmat:
  "length (vecmat x w) = foldr (\<lambda>r n. min (length r) n) (take (length x) w) (ncols w)"
proof -
  have "map length (map2 (\<lambda>xi wrow. map (\<lambda>wv. xi * wv) wrow) x w) = map length (take (length x) w)"
    by (rule nth_equalityI) simp_all
  then have "foldr (\<lambda>r n. min (length r) n) (map2 (\<lambda>xi wrow. map (\<lambda>wv. xi * wv) wrow) x w) c
        = foldr (\<lambda>r n. min (length r) n) (take (length x) w) c" for c
    unfolding foldr_min_length by simp
  then show ?thesis by (simp add: vecmat_def length_col_sums)
qed

lemma collect_map_Inr_iff:
  "collect (map f xs) = Inr ys \<Longrightarrow> length ys = length xs \<and> (\<forall>i<length xs. f (xs ! i) = Inr (ys ! i))"
proof (induction xs arbitrary: ys)
  case Nil
  then show ?case by simp
next
  case (Cons x xs)
  then obtain y ys' where y: "f x = Inr y" "collect (map f xs) = Inr ys'" "ys = y # ys'"
    by (auto split: sum.splits)
  from Cons.IH [OF y(2)] y(1,3) show ?case by (auto simp: nth_Cons')
qed

lemma normalise_rows_Inr:
  assumes "normalise_rows rows = Inr a"
  shows "length a = length rows"
    and "\<And>i. i < length rows \<Longrightarrow> a ! i = map (\<lambda>v. v / np_sum (rows ! i)) (rows ! i)"
proof -
  from collect_map_Inr_iff [OF assms [unfolded normalise_rows_def]]
  have l: "length a = length rows" and
    e: "\<forall>i<length rows. (if np_sum (rows ! i) = 0 then Inl NonFinite
          else Inr (map (\<lambda>v. v / np_sum (rows ! i)) (rows ! i))) = Inr (a ! i)"
    by simp_all
  show "length a = length rows" by (rule l)
  show "a ! i = map (\<lambda>v. v / np_sum (rows ! i)) (rows ! i)" if "i < length rows" for i
    using e that by (auto split: if_splits)
qed

lemma tr_embed_head [simp]: "tr_embed (head d info l_embed) = l_embed"
  by (simp add: head_def Let_def)

lemma forward_Inr:
  assumes "forward d info N x = Inr t"
  obtains e l_embed where "smiles_embed (mat_of (d ! 0)) x (pos_matrix N (length x)) = Inr e"
    and "encoder d N e = Inr l_embed" and "t = head d info l_embed"
  using assms by (auto simp: forward_def err_bind_def split: sum.splits)

section \<open>The valid-length mask\<close>

text \<open>
  Claim C6, as the claim states it: two passes that agree on the first \<open>N\<close> token
  positions and differ in what the padding positions hold give the same score. The mask
  of lines 157 to 159 zeroes the attention weights of the columns from \<open>N\<close> on and nothing
  else: the padding rows go through the encoder, and the convolutions and the max-pool
  run over all \<open>NN\<close> rows. \<^verbatim>\<open>calcQSAR\<close> fills the padding positions with the token 0,
  the space, so they hold the embedding row of the space. With one valid token and
  twenty padding positions the score is 0 where the padding holds a zero row and more
  than three million where it holds \<open>alt_row\<close>, whether the pass from line 148 on is
  given the padding token 1 in place of 0, or \<^verbatim>\<open>calcQSAR\<close> is run on \<^verbatim>\<open>C\<close> with
  \<open>alt_row\<close> as the embedding of the space, which no SMILES string contains.
\<close>

theorem mask_counterexample:
  "qsar_pass eval_result (mask_store (zeros 64)) demo_info 1 (24 # replicate 20 0) False
     = Inr (Score 0) \<and>
   qsar_pass eval_result (mask_store (zeros 64)) demo_info 1 (24 # replicate 20 1) False
     = Inr (Score (3276800 * 10 ^ 36 / 1000001000001000001000001000001000001)) \<and>
   calcQSAR eval_result (mask_store (zeros 64)) demo_info ''C'' False = Inr (Score 0) \<and>
   calcQSAR eval_result (mask_store alt_row) demo_info ''C'' False
     = Inr (Score (3276800 * 10 ^ 36 / 1000001000001000001000001000001000001))"
proof -
  have "map ((*) 1) alt_row = alt_row" by (rule map_idI) simp
  then have a: "(zeros 64 # alt_row # replicate 64 (zeros 64)) ! 0 = map ((*) 0) alt_row"
    "(zeros 64 # alt_row # replicate 64 (zeros 64)) ! 1 = map ((*) 1) alt_row"
    "(alt_row # alt_row # replicate 64 (zeros 64)) ! 0 = map ((*) 1) alt_row"
    using zeros_scaled_alt by simp_all
  have l: "length (zeros 64) = 64" "length alt_row = 64" by (simp_all add: length_alt_row)
  have e: "encode ''C'' = Inr [24]"
    by (simp add: char_to_ix_def chars_def enumerate_eq_zip)
  have p: "padded [24] = 24 # replicate 20 0" by (simp add: padded_def CONV_OFFSET_def)
  have c: "calcQSAR eval_result d demo_info ''C'' False
           = qsar_pass eval_result d demo_info 1 (24 # replicate 20 0) False" for d
    unfolding calcQSAR_def e err_bind_Inr p by simp
  show ?thesis
    unfolding c
    using mask_pass [OF _ a(1) _ l(1)] mask_pass [OF _ a(2) _ l(1)] mask_pass [OF _ a(3) _ l(2)]
    by (simp add: gain_def)
qed

text \<open>
  Claim C6, amended. For every fixed token length \<open>N\<close>, the valid-length attention mask
  excludes all positions from \<open>N\<close> on: in every attention head that returns finite
  weights, the weight of every position on every key position from \<open>N\<close> on is exactly
  zero. The score is not covered: it depends on what the padding positions hold.
\<close>

theorem mask_excludes_padding:
  assumes "attention_weights x (left_mask N NN) K Q = Inr a" and "length x = NN"
  shows "length a = NN \<and>
         (\<forall>i<NN. length (a ! i) = NN \<and> (\<forall>j<NN. N \<le> j \<longrightarrow> a ! i ! j = 0))"
proof -
  let ?l = "map (\<lambda>qi. map (\<lambda>kj. dotv qi kj / sqrt (real EMBEDDING_SIZE)) (matmul x K))
              (matmul x Q)"
  from assms(1) obtain e where e: "collect (map (\<lambda>row. collect (map np_exp row)) ?l) = Inr e"
    and n: "normalise_rows (map2 vmul e (left_mask N NN)) = Inr a"
    by (auto simp: attention_weights_def Let_def err_bind_def split: sum.splits)
  have ll: "length ?l = NN" using assms(2) by (simp add: matmul_def)
  from collect_map_Inr_iff [OF e] ll have le: "length e = NN"
    and rows: "\<And>i. i < NN \<Longrightarrow> collect (map np_exp (?l ! i)) = Inr (e ! i)" by simp_all
  have lr: "length (e ! i) = NN" if "i < NN" for i
  proof -
    have "length (?l ! i) = NN" using that ll assms(2) by (simp add: matmul_def)
    with collect_map_Inr_iff [OF rows [OF that]] show ?thesis by simp
  qed
  let ?m = "map2 vmul e (left_mask N NN)"
  have lm: "length ?m = NN" using le by (simp add: left_mask_def)
  have m: "?m ! i = vmul (e ! i) (replicate N 1 @ replicate (NN - N) 0)" if "i < NN" for i
    using that le by (simp add: left_mask_def)
  note na = normalise_rows_Inr [OF n]
  have "length (a ! i) = NN \<and> (\<forall>j<NN. N \<le> j \<longrightarrow> a ! i ! j = 0)" if i: "i < NN" for i
  proof -
    have ai: "a ! i = map (\<lambda>v. v / np_sum (?m ! i)) (?m ! i)"
      using na(2) [of i] i le by (simp add: left_mask_def)
    have len: "length (?m ! i) = NN" unfolding m [OF i] using lr [OF i] by (simp add: vmul_def)
    have "?m ! i ! j = 0" if "j < NN" "N \<le> j" for j
      unfolding m [OF i] using that lr [OF i] by (simp add: vmul_def nth_append)
    then show ?thesis using ai len by simp
  qed
  moreover have "length a = NN" using na(1) lm by simp
  ultimately show ?thesis by blast
qed

theorem mask_excludes_padding_witness:
  "attention_weights [[1], [3], [5]] (left_mask 2 3) [[1]] [[1]]
   = Inr [[exp (1 / 8) / (exp (1 / 8) + exp (3 / 8)), exp (3 / 8) / (exp (1 / 8) + exp (3 / 8)), 0],
          [exp (3 / 8) / (exp (3 / 8) + exp (9 / 8)), exp (9 / 8) / (exp (3 / 8) + exp (9 / 8)), 0],
          [exp (5 / 8) / (exp (5 / 8) + exp (15 / 8)), exp (15 / 8) / (exp (5 / 8) + exp (15 / 8)), 0]]"
proof -
  have q: "matmul [[1], [3], [5]] [[1]] = [[1], [3], [5 :: real]]"
    by (simp add: matmul_def vecmat_def ncols_def col_sums_def vadd_def zeros_def)
  have s: "sqrt (real EMBEDDING_SIZE) = 8" by (simp add: EMBEDDING_SIZE_def)
  have x: "np_exp (1 / 8) = Inr (exp (1 / 8))" "np_exp (3 / 8) = Inr (exp (3 / 8))"
    "np_exp (5 / 8) = Inr (exp (5 / 8))" "np_exp (9 / 8) = Inr (exp (9 / 8))"
    "np_exp (15 / 8) = Inr (exp (15 / 8))" "np_exp (25 / 8) = Inr (exp (25 / 8))"
    by (rule np_exp_finite, simp)+
  have m: "left_mask 2 3 = [[1, 1, 0], [1, 1, 0], [1, 1, 0]]"
    by (simp add: left_mask_def eval_nat_numeral)
  have p: "exp (1 / 8) + exp (3 / 8) \<noteq> (0::real)" "exp (3 / 8) + exp (9 / 8) \<noteq> (0::real)"
    "exp (5 / 8) + exp (15 / 8) \<noteq> (0::real)"
    by (simp_all add: add_pos_pos pos_add_strict less_imp_neq [THEN not_sym])
  have e: "attention_weights [[1], [3], [5]] (left_mask 2 3) [[1]] [[1]]
   = Inr [[exp (1 / 8) / (exp (1 / 8) + exp (3 / 8)), exp (3 / 8) / (exp (1 / 8) + exp (3 / 8)), 0],
          [exp (3 / 8) / (exp (3 / 8) + exp (9 / 8)), exp (9 / 8) / (exp (3 / 8) + exp (9 / 8)), 0],
          [exp (5 / 8) / (exp (5 / 8) + exp (15 / 8)), exp (15 / 8) / (exp (5 / 8) + exp (15 / 8)), 0]]"
    unfolding attention_weights_def Let_def q s m
    using p by (simp add: dotv_def vmul_def x normalise_rows_def np_sum_def)
  from mask_excludes_padding [OF e] have
    "[[exp (1 / 8) / (exp (1 / 8) + exp (3 / 8)), exp (3 / 8) / (exp (1 / 8) + exp (3 / 8)), 0],
      [exp (3 / 8) / (exp (3 / 8) + exp (9 / 8)), exp (9 / 8) / (exp (3 / 8) + exp (9 / 8)), 0],
      [exp (5 / 8) / (exp (5 / 8) + exp (15 / 8)), exp (15 / 8) / (exp (5 / 8) + exp (15 / 8)),
       0 :: real]] ! 0 ! 2 = 0"
    by simp
  with e show ?thesis by simp
qed

section \<open>The output post-transform\<close>

lemma length_vecmat_cols:
  assumes "w \<noteq> []" and "\<forall>row\<in>set w. length row = c"
  shows "length (vecmat x w) = c"
proof -
  have f: "foldr (\<lambda>r n. min (length r) n) m c = c" if "\<forall>row\<in>set m. length row = c"
    for m :: mat
    using that by (induction m) simp_all
  have t: "\<forall>row\<in>set (take (length x) w). length row = c"
    using assms(2) by (auto dest: in_set_takeD)
  have n: "ncols w = c" using assms by (cases w) (simp_all add: ncols_def)
  show ?thesis unfolding length_vecmat n by (rule f [OF t])
qed

lemma length_tr_out:
  assumes "mat_of (d ! 151) \<noteq> []" and "\<forall>row\<in>set (mat_of (d ! 151)). length row = 1"
    and "length (vec_of (d ! 152)) = 1"
  shows "length (tr_out (head d info l_embed)) = 1"
proof -
  have "length (vecmat x (mat_of (d ! 151))) = 1" for x
    by (rule length_vecmat_cols [OF assms(1,2)])
  then show ?thesis using assms(3) by (simp add: head_def Let_def)
qed

lemma square_pass:
  "calcQSAR eval_square (const_store b) square_info ''CC'' False
   = Inr (Score ((1 + b) * (1 + b)))"
proof -
  have e: "encode ''CC'' = Inr [24, 24]"
    by (simp add: char_to_ix_def chars_def enumerate_eq_zip)
  have i: "square_info ! 2 = ''result * result''" "square_info ! 1 \<noteq> ''classification''"
    by (simp_all add: square_info_def)
  have "length ''CC'' = 2" by simp
  then have f: "forward (const_store b) square_info (length ''CC'') (padded [24, 24])
                = Inr (const_trace \<lparr> tr_out := [1 + b] \<rparr>)"
    using const_forward [OF i(2), of b] by (simp only:)
  show ?thesis
    unfolding calcQSAR_def e err_bind_Inr qsar_pass_def f
    by (simp add: i eval_square_def)
qed

text \<open>
  Claim C7, as the claim states it: the score is the raw output under one of a closed
  enumeration of monotone functions, and no stored expression is evaluated. Line 507 is
  \<^verbatim>\<open>l_out[0] = eval(info[2])\<close>: whatever expression the metadata stores is evaluated.
  With the expression \<^verbatim>\<open>result * result\<close> and the output biases \<open>- 2\<close>, \<open>- 1\<close> and
  \<open>0\<close> the raw outputs of \<^verbatim>\<open>CC\<close> are \<open>- 1\<close>, \<open>0\<close> and \<open>1\<close>, and the scores are
  \<open>1\<close>, \<open>0\<close> and \<open>1\<close>: the transform is not monotone.
\<close>

theorem post_transform_counterexample:
  "calcQSAR eval_square (const_store (- 2)) square_info ''CC'' False = Inr (Score 1) \<and>
   calcQSAR eval_square (const_store (- 1)) square_info ''CC'' False = Inr (Score 0) \<and>
   calcQSAR eval_square (const_store 0) square_info ''CC'' False = Inr (Score 1) \<and>
   tr_out (projr (forward (const_store (- 2)) square_info 2 (padded [24, 24]))) = [- 1] \<and>
   tr_out (projr (forward (const_store (- 1)) square_info 2 (padded [24, 24]))) = [0] \<and>
   tr_out (projr (forward (const_store 0) square_info 2 (padded [24, 24]))) = [1]"
proof -
  have i: "square_info ! 1 \<noteq> ''classification''" by (simp add: square_info_def)
  show ?thesis
    using square_pass [of "- 2"] square_pass [of "- 1"] square_pass [of 0]
      const_forward [OF i, of "- 2"] const_forward [OF i, of "- 1"] const_forward [OF i, of 0]
    by simp
qed

text \<open>
  Claim C7, amended. The final reported score is the value the Python interpreter gives
  to the expression stored in the metadata, \<^verbatim>\<open>info[2]\<close>, with \<^verbatim>\<open>result\<close> bound to the
  raw output (for a weight store with an output layer of one unit).
\<close>

theorem score_is_interpreted:
  assumes "calcQSAR ev d info mol False = Inr (Score v)"
    and "mat_of (d ! 151) \<noteq> []" and "\<forall>row\<in>set (mat_of (d ! 151)). length row = 1"
    and "length (vec_of (d ! 152)) = 1"
  shows "\<exists>ks tr. encode mol = Inr ks \<and>
           forward d info (length mol) (padded ks) = Inr tr \<and>
           ev (info ! 2) (hd (tr_out tr)) = Some v"
proof -
  from assms(1) obtain ks tr v' where
    k: "encode mol = Inr ks" and
    f: "forward d info (length mol) (padded ks) = Inr tr" and
    e: "ev (info ! 2) (hd (tr_out tr)) = Some v'" and
    v: "v = hd ((tr_out tr)[0 := v'])"
    by (auto simp: calcQSAR_def qsar_pass_def err_bind_def Let_def
        split: sum.splits option.splits)
  from f obtain l_embed where "tr = head d info l_embed" by (rule forward_Inr)
  then have "length (tr_out tr) = 1" using length_tr_out [OF assms(2,3,4)] by simp
  then obtain o1 where "tr_out tr = [o1]" by (cases "tr_out tr") auto
  then have "v = v'" using v by simp
  then show ?thesis using k f e by auto
qed

theorem score_is_interpreted_witness:
  "encode ''CC'' = Inr [24, 24] \<and>
   forward (const_store 2) square_info (length ''CC'') (padded [24, 24])
     = Inr (const_trace \<lparr> tr_out := [3] \<rparr>) \<and>
   eval_square (square_info ! 2) (hd (tr_out (const_trace \<lparr> tr_out := [3] \<rparr>))) = Some 9"
proof -
  have s: "calcQSAR eval_square (const_store 2) square_info ''CC'' False = Inr (Score 9)"
    using square_pass [of 2] by simp
  have h2: "mat_of (const_store 2 ! 151) \<noteq> []" by (simp add: const_store_head)
  have h3: "\<forall>row\<in>set (mat_of (const_store 2 ! 151)). length row = 1"
    by (simp add: const_store_head)
  have h4: "length (vec_of (const_store 2 ! 152)) = 1" by (simp add: const_store_head)
  have e: "encode ''CC'' = Inr [24, 24]"
    by (simp add: char_to_ix_def chars_def enumerate_eq_zip)
  have i: "square_info ! 1 \<noteq> ''classification''" by (simp add: square_info_def)
  have "length ''CC'' = 2" by simp
  then have f: "forward (const_store 2) square_info (length ''CC'') (padded [24, 24])
                = Inr (const_trace \<lparr> tr_out := [1 + 2] \<rparr>)"
    using const_forward [OF i, of 2] by (simp only:)
  from score_is_interpreted [OF s h2 h3 h4] obtain ks tr where a:
    "encode ''CC'' = Inr ks"
    "forward (const_store 2) square_info (length ''CC'') (padded ks) = Inr tr"
    "eval_square (square_info ! 2) (hd (tr_out tr)) = Some 9" by blast
  have "ks = [24, 24]" using a(1) e by simp
  then have "tr = const_trace \<lparr> tr_out := [1 + 2] \<rparr>" using a(2) f by simp
  then show ?thesis using e f a(3) by simp
qed

end
